theory Spec2Isabelle
  imports Main "HOL-Library.Word"
begin

unbundle bit_operations_syntax

section \<open>Memory and native loads\<close>

text \<open>
  The blob reader (\<^verbatim>\<open>ddr/tools/blob_reader/blob_reader.cpp\<close>) overlays C structs on raw
  bytes. Memory is a list of bytes; a pointer into \<^verbatim>\<open>blobBuffer\<close> (or into the local header
  struct) is the index of the byte it points to. Pointer and \<^verbatim>\<open>size_t\<close> arithmetic is done
  on \<open>nat\<close>: with a 64-bit \<^verbatim>\<open>size_t\<close> none of the sums below can wrap, since every summand
  is a 16- or 32-bit quantity or a position inside the buffer. Counters declared
  \<^verbatim>\<open>uint32_t\<close> or \<^verbatim>\<open>unsigned int\<close> are \<open>32 word\<close> and wrap as in C.

  What a native multi-byte load returns depends on the byte order of the machine the reader
  runs on, which is a parameter of the model.
\<close>

type_synonym byte = "8 word"
type_synonym memory = "byte list"

datatype endian = LittleEndian | BigEndian

fun opposite :: "endian \<Rightarrow> endian" where
  "opposite LittleEndian = BigEndian"
| "opposite BigEndian = LittleEndian"

text \<open>Most significant byte first.\<close>

definition cat_u16 :: "byte \<Rightarrow> byte \<Rightarrow> 16 word" where
  "cat_u16 b1 b0 = push_bit 8 (ucast b1) OR ucast b0"

definition cat_u32 :: "byte \<Rightarrow> byte \<Rightarrow> byte \<Rightarrow> byte \<Rightarrow> 32 word" where
  "cat_u32 b3 b2 b1 b0 =
     push_bit 24 (ucast b3) OR push_bit 16 (ucast b2) OR push_bit 8 (ucast b1) OR ucast b0"

definition cat_u64 :: "32 word \<Rightarrow> 32 word \<Rightarrow> 64 word" where
  "cat_u64 hi lo = push_bit 32 (ucast hi) OR ucast lo"

text \<open>\<^verbatim>\<open>*(uint16_t *)p\<close>, \<^verbatim>\<open>*(uint32_t *)p\<close> and \<^verbatim>\<open>*(uint64_t *)p\<close> on a host of byte order \<open>e\<close>.\<close>

definition load_u16 :: "endian \<Rightarrow> memory \<Rightarrow> nat \<Rightarrow> 16 word" where
  "load_u16 e m p =
     (case e of
        LittleEndian \<Rightarrow> cat_u16 (m ! (p + 1)) (m ! p)
      | BigEndian \<Rightarrow> cat_u16 (m ! p) (m ! (p + 1)))"

definition load_u32 :: "endian \<Rightarrow> memory \<Rightarrow> nat \<Rightarrow> 32 word" where
  "load_u32 e m p =
     (case e of
        LittleEndian \<Rightarrow> cat_u32 (m ! (p + 3)) (m ! (p + 2)) (m ! (p + 1)) (m ! p)
      | BigEndian \<Rightarrow> cat_u32 (m ! p) (m ! (p + 1)) (m ! (p + 2)) (m ! (p + 3)))"

definition load_u64 :: "endian \<Rightarrow> memory \<Rightarrow> nat \<Rightarrow> 64 word" where
  "load_u64 e m p =
     (case e of
        LittleEndian \<Rightarrow> cat_u64 (load_u32 e m (p + 4)) (load_u32 e m p)
      | BigEndian \<Rightarrow> cat_u64 (load_u32 e m p) (load_u32 e m (p + 4)))"

text \<open>
  The bytes a writer of byte order \<open>e\<close> stores for a 32-bit value. The reader has no such
  function; it is used to state how a value was stored in the file.
\<close>

definition store_u32 :: "endian \<Rightarrow> 32 word \<Rightarrow> byte list" where
  "store_u32 e w =
     (case e of
        LittleEndian \<Rightarrow> [ucast w, ucast (drop_bit 8 w), ucast (drop_bit 16 w), ucast (drop_bit 24 w)]
      | BigEndian \<Rightarrow> [ucast (drop_bit 24 w), ucast (drop_bit 16 w), ucast (drop_bit 8 w), ucast w])"

section \<open>Byte swapping\<close>

text \<open>\<^verbatim>\<open>swap_bytes\<close>, \<^verbatim>\<open>swap_u16\<close>, \<^verbatim>\<open>swap_u32\<close>: the pointers are indices into the memory.\<close>

definition swap_bytes :: "memory \<Rightarrow> nat \<Rightarrow> nat \<Rightarrow> memory" where
  "swap_bytes m left right = (let temp = m ! left in (m[left := m ! right])[right := temp])"

definition swap_u16 :: "memory \<Rightarrow> nat \<Rightarrow> memory" where
  "swap_u16 m bytes = swap_bytes m (bytes + 0) (bytes + 1)"

definition swap_u32 :: "memory \<Rightarrow> nat \<Rightarrow> memory" where
  "swap_u32 m bytes = swap_bytes (swap_bytes m (bytes + 0) (bytes + 3)) (bytes + 1) (bytes + 2)"

section \<open>On-disk records\<close>

text \<open>
  The sizes of the overlaid structs: \<^verbatim>\<open>BlobHeaderV1\<close> is a \<^verbatim>\<open>uint32_t\<close>, four \<^verbatim>\<open>uint8_t\<close> and
  three \<^verbatim>\<open>uint32_t\<close>; \<^verbatim>\<open>BlobStruct\<close> is five \<^verbatim>\<open>uint32_t\<close>; \<^verbatim>\<open>BlobField\<close> and \<^verbatim>\<open>BlobConstant\<close>
  are three \<^verbatim>\<open>uint32_t\<close> each; the length of a \<^verbatim>\<open>BlobString\<close> is a \<^verbatim>\<open>uint16_t\<close>, and its
  \<^verbatim>\<open>data\<close> starts right after it.
\<close>

definition sizeof_BlobHeaderV1 :: nat where "sizeof_BlobHeaderV1 = 20"
definition sizeof_BlobStruct :: nat where "sizeof_BlobStruct = 20"
definition sizeof_BlobField :: nat where "sizeof_BlobField = 12"
definition sizeof_BlobConstant :: nat where "sizeof_BlobConstant = 12"
definition sizeof_length :: nat where "sizeof_length = 2"

text \<open>The \<^verbatim>\<open>endian_swap\<close> member of each overlaid struct, at the address of the struct.\<close>

definition BlobHeaderV1_endian_swap :: "memory \<Rightarrow> nat \<Rightarrow> memory" where
  "BlobHeaderV1_endian_swap m p =
     swap_u32 (swap_u32 (swap_u32 (swap_u32 m p) (p + 8)) (p + 12)) (p + 16)"

definition BlobString_endian_swap :: "memory \<Rightarrow> nat \<Rightarrow> memory" where
  "BlobString_endian_swap m p = swap_u16 m p"

definition BlobStruct_endian_swap :: "memory \<Rightarrow> nat \<Rightarrow> memory" where
  "BlobStruct_endian_swap m p =
     swap_u32 (swap_u32 (swap_u32 (swap_u32 (swap_u32 m p) (p + 4)) (p + 8)) (p + 12)) (p + 16)"

definition BlobField_endian_swap :: "memory \<Rightarrow> nat \<Rightarrow> memory" where
  "BlobField_endian_swap m p = swap_u32 (swap_u32 (swap_u32 m p) (p + 4)) (p + 8)"

text \<open>
  Lines 131 to 136: the eight bytes of \<^verbatim>\<open>value\<close> are exchanged in pairs, \<^verbatim>\<open>bytes\<close> being the
  address of \<^verbatim>\<open>value\<close>.
\<close>

definition swap_value_bytes :: "memory \<Rightarrow> nat \<Rightarrow> memory" where
  "swap_value_bytes m bytes =
     swap_bytes (swap_bytes (swap_bytes (swap_bytes m (bytes + 0) (bytes + 7))
       (bytes + 1) (bytes + 6)) (bytes + 2) (bytes + 5)) (bytes + 3) (bytes + 4)"

definition BlobConstant_endian_swap :: "memory \<Rightarrow> nat \<Rightarrow> memory" where
  "BlobConstant_endian_swap m p = swap_value_bytes (swap_u32 m p) (p + 4)"

section \<open>Outcomes\<close>

text \<open>
  The program reports two failures itself, both on \<^verbatim>\<open>fread\<close> returning fewer bytes than
  asked for. \<open>InvalidAccess\<close> is not a check of the program: it stands for a load or store
  outside \<^verbatim>\<open>blobBuffer\<close>, which C leaves undefined. The calls of \<^verbatim>\<open>printf\<close> are not
  modelled; the values handed to them are part of the results below.
\<close>

datatype error = HeaderReadError | BlobReadError | InvalidAccess

section \<open>The header\<close>

record BlobHeaderV1 =
  coreVersion :: "32 word"
  sizeofBool :: byte
  sizeofUDATA :: byte
  bitfieldFormat :: byte
  padding :: byte
  structDataSize :: "32 word"
  stringTableDataSize :: "32 word"
  structureCount :: "32 word"

text \<open>The fields of the header struct as the host reads them from its 20 bytes.\<close>

definition header_fields :: "endian \<Rightarrow> memory \<Rightarrow> BlobHeaderV1" where
  "header_fields e hdr =
     \<lparr> coreVersion = load_u32 e hdr 0,
       sizeofBool = hdr ! 4,
       sizeofUDATA = hdr ! 5,
       bitfieldFormat = hdr ! 6,
       padding = hdr ! 7,
       structDataSize = load_u32 e hdr 8,
       stringTableDataSize = load_u32 e hdr 12,
       structureCount = load_u32 e hdr 16 \<rparr>"

text \<open>
  Lines 210 to 218: \<^verbatim>\<open>swapsNeeded = blobHdrV1.coreVersion > (uint32_t)0xFFFF\<close>, then the
  swap of the local header struct. The result is the flag and the header as used from
  there on.
\<close>

definition decode_header :: "endian \<Rightarrow> memory \<Rightarrow> bool \<times> BlobHeaderV1" where
  "decode_header e hdr =
     (let swapsNeeded = (coreVersion (header_fields e hdr) > 0xFFFF);
          hdr' = (if swapsNeeded then BlobHeaderV1_endian_swap hdr 0 else hdr)
      in (swapsNeeded, header_fields e hdr'))"

section \<open>The string table\<close>

text \<open>
  \<^verbatim>\<open>BLOBSTRING_AT(offset)\<close> is pointer arithmetic only; \<^verbatim>\<open>->data\<close> is the address after the
  length; \<^verbatim>\<open>->length\<close> loads two bytes, with no swap and no comparison against the
  bounds of the string table.
\<close>

definition BLOBSTRING_AT :: "nat \<Rightarrow> 32 word \<Rightarrow> nat" where
  "BLOBSTRING_AT stringDataStart offset = stringDataStart + unat offset"

definition BlobString_data :: "nat \<Rightarrow> nat" where
  "BlobString_data p = p + sizeof_length"

definition BlobString_length :: "endian \<Rightarrow> memory \<Rightarrow> nat \<Rightarrow> error + 16 word" where
  "BlobString_length e m p =
     (if p + sizeof_length \<le> length m then Inr (load_u16 e m p) else Inl InvalidAccess)"

text \<open>One line of the printed list of strings: its number, its offset in the string data, its length.\<close>

record StringEntry =
  stringNum :: "32 word"
  stringOffset :: nat
  stringLength :: "16 word"

text \<open>The loop of lines 262 to 280, from \<^verbatim>\<open>currentString\<close> on. It returns the memory it leaves.\<close>

function read_strings ::
  "bool \<Rightarrow> endian \<Rightarrow> nat \<Rightarrow> nat \<Rightarrow> memory \<Rightarrow> nat \<Rightarrow> 32 word \<Rightarrow> error + (StringEntry list \<times> memory)"
where
  "read_strings swapsNeeded e stringDataStart stringDataEnd m currentString num =
     (if currentString < stringDataEnd then
        if currentString + sizeof_length \<le> length m then
          let m' = (if swapsNeeded then BlobString_endian_swap m currentString else m);
              len = load_u16 e m' currentString;
              pad = len AND 1;
              entry = \<lparr> stringNum = num, stringOffset = currentString - stringDataStart,
                        stringLength = len \<rparr>
          in (case read_strings swapsNeeded e stringDataStart stringDataEnd m'
                     (currentString + (unat len + sizeof_length + unat pad)) (num + 1) of
                Inl err \<Rightarrow> Inl err
              | Inr (entries, mf) \<Rightarrow> Inr (entry # entries, mf))
        else Inl InvalidAccess
      else Inr ([], m))"
  by pat_completeness auto
termination
  by (relation "measure (\<lambda>(swapsNeeded, e, stringDataStart, stringDataEnd, m, currentString, num).
        stringDataEnd - currentString)")
     (auto simp: sizeof_length_def)

section \<open>The structures\<close>

text \<open>
  The decoded entities. A \<^verbatim>\<open>char *\<close> into the blob is the index of its first byte;
  \<open>None\<close> is \<^verbatim>\<open>NULL\<close>. The vectors \<^verbatim>\<open>fields\<close> and \<^verbatim>\<open>constants\<close> are the lists \<open>fields_v\<close> and \<open>constants_v\<close>.
\<close>

record Field =
  field_name :: nat
  field_nameLength :: "32 word"
  field_type :: nat
  field_typeLength :: "32 word"
  field_offset :: "32 word"

record Constant =
  const_name :: nat
  const_nameLength :: "32 word"
  const_value :: "64 word"

record Structure =
  name :: nat
  nameLength :: "32 word"
  superName :: "nat option"
  superNameLength :: "32 word"
  size_of :: "32 word"
  fields_v :: "Field list"
  constants_v :: "Constant list"

text \<open>The members of the overlaid \<^verbatim>\<open>BlobStruct\<close>, \<^verbatim>\<open>BlobField\<close> and \<^verbatim>\<open>BlobConstant\<close> at address \<open>p\<close>.\<close>

definition BlobStruct_nameOffset :: "endian \<Rightarrow> memory \<Rightarrow> nat \<Rightarrow> 32 word" where
  "BlobStruct_nameOffset e m p = load_u32 e m p"

definition BlobStruct_superName :: "endian \<Rightarrow> memory \<Rightarrow> nat \<Rightarrow> 32 word" where
  "BlobStruct_superName e m p = load_u32 e m (p + 4)"

definition BlobStruct_sizeOf :: "endian \<Rightarrow> memory \<Rightarrow> nat \<Rightarrow> 32 word" where
  "BlobStruct_sizeOf e m p = load_u32 e m (p + 8)"

definition BlobStruct_fieldCount :: "endian \<Rightarrow> memory \<Rightarrow> nat \<Rightarrow> 32 word" where
  "BlobStruct_fieldCount e m p = load_u32 e m (p + 12)"

definition BlobStruct_constCount :: "endian \<Rightarrow> memory \<Rightarrow> nat \<Rightarrow> 32 word" where
  "BlobStruct_constCount e m p = load_u32 e m (p + 16)"

definition BlobField_declaredName :: "endian \<Rightarrow> memory \<Rightarrow> nat \<Rightarrow> 32 word" where
  "BlobField_declaredName e m p = load_u32 e m p"

definition BlobField_declaredType :: "endian \<Rightarrow> memory \<Rightarrow> nat \<Rightarrow> 32 word" where
  "BlobField_declaredType e m p = load_u32 e m (p + 4)"

definition BlobField_offset :: "endian \<Rightarrow> memory \<Rightarrow> nat \<Rightarrow> 32 word" where
  "BlobField_offset e m p = load_u32 e m (p + 8)"

definition BlobConstant_name :: "endian \<Rightarrow> memory \<Rightarrow> nat \<Rightarrow> 32 word" where
  "BlobConstant_name e m p = load_u32 e m p"

definition BlobConstant_value :: "endian \<Rightarrow> memory \<Rightarrow> nat \<Rightarrow> 64 word" where
  "BlobConstant_value e m p = load_u64 e m (p + 4)"

text \<open>
  The body of the field loop, lines 322 to 337, for the record at \<^verbatim>\<open>currentStruct\<close>: the
  swap in place, the two string lengths, the built \<^verbatim>\<open>Field\<close>.
\<close>

definition decode_field ::
  "bool \<Rightarrow> endian \<Rightarrow> nat \<Rightarrow> memory \<Rightarrow> nat \<Rightarrow> error + (Field \<times> memory)"
where
  "decode_field swapsNeeded e stringDataStart m blobField =
     (if blobField + sizeof_BlobField \<le> length m then
        let m' = (if swapsNeeded then BlobField_endian_swap m blobField else m);
            nameAt = BLOBSTRING_AT stringDataStart (BlobField_declaredName e m' blobField);
            typeAt = BLOBSTRING_AT stringDataStart (BlobField_declaredType e m' blobField)
        in (case BlobString_length e m' nameAt of
              Inl err \<Rightarrow> Inl err
            | Inr nameLen \<Rightarrow>
                (case BlobString_length e m' typeAt of
                   Inl err \<Rightarrow> Inl err
                 | Inr typeLen \<Rightarrow>
                     Inr (\<lparr> field_name = BlobString_data nameAt,
                            field_nameLength = ucast nameLen,
                            field_type = BlobString_data typeAt,
                            field_typeLength = ucast typeLen,
                            field_offset = BlobField_offset e m' blobField \<rparr>, m')))
      else Inl InvalidAccess)"

text \<open>The body of the constant loop, lines 343 to 356.\<close>

definition decode_constant ::
  "bool \<Rightarrow> endian \<Rightarrow> nat \<Rightarrow> memory \<Rightarrow> nat \<Rightarrow> error + (Constant \<times> memory)"
where
  "decode_constant swapsNeeded e stringDataStart m blobConst =
     (if blobConst + sizeof_BlobConstant \<le> length m then
        let m' = (if swapsNeeded then BlobConstant_endian_swap m blobConst else m);
            nameAt = BLOBSTRING_AT stringDataStart (BlobConstant_name e m' blobConst)
        in (case BlobString_length e m' nameAt of
              Inl err \<Rightarrow> Inl err
            | Inr nameLen \<Rightarrow>
                Inr (\<lparr> const_name = BlobString_data nameAt,
                       const_nameLength = ucast nameLen,
                       const_value = BlobConstant_value e m' blobConst \<rparr>, m'))
      else Inl InvalidAccess)"

lemma length_swap_bytes [simp]: "length (swap_bytes m i j) = length m"
  by (simp add: swap_bytes_def)

lemma length_swap_u16 [simp]: "length (swap_u16 m p) = length m"
  by (simp add: swap_u16_def)

lemma length_swap_u32 [simp]: "length (swap_u32 m p) = length m"
  by (simp add: swap_u32_def)

lemma length_BlobString_endian_swap [simp]: "length (BlobString_endian_swap m p) = length m"
  by (simp add: BlobString_endian_swap_def)

lemma length_BlobStruct_endian_swap [simp]: "length (BlobStruct_endian_swap m p) = length m"
  by (simp add: BlobStruct_endian_swap_def)

lemma length_BlobField_endian_swap [simp]: "length (BlobField_endian_swap m p) = length m"
  by (simp add: BlobField_endian_swap_def)

lemma length_swap_value_bytes [simp]: "length (swap_value_bytes m p) = length m"
  by (simp add: swap_value_bytes_def)

lemma length_BlobConstant_endian_swap [simp]: "length (BlobConstant_endian_swap m p) = length m"
  by (simp add: BlobConstant_endian_swap_def)

lemma decode_field_Inr:
  assumes "decode_field swapsNeeded e stringDataStart m p = Inr (f, m')"
  shows "p + sizeof_BlobField \<le> length m \<and> length m' = length m"
  using assms
  by (auto simp: decode_field_def Let_def split: if_splits sum.splits)

lemma decode_constant_Inr:
  assumes "decode_constant swapsNeeded e stringDataStart m p = Inr (c, m')"
  shows "p + sizeof_BlobConstant \<le> length m \<and> length m' = length m"
  using assms
  by (auto simp: decode_constant_def Let_def split: if_splits sum.splits)

text \<open>
  The field loop, lines 320 to 339. \<^verbatim>\<open>blobStruct->fieldCount\<close> is read from the buffer at
  every test of the loop condition, as the source does; the counter is a \<^verbatim>\<open>uint32_t\<close>
  starting at 1. The result is the fields in the order of \<^verbatim>\<open>push_back\<close>, the cursor and
  the memory.
\<close>

function read_fields ::
  "bool \<Rightarrow> endian \<Rightarrow> nat \<Rightarrow> nat \<Rightarrow> memory \<Rightarrow> nat \<Rightarrow> 32 word \<Rightarrow> error + (Field list \<times> nat \<times> memory)"
where
  "read_fields swapsNeeded e stringDataStart blobStruct m currentStruct fieldCount =
     (if fieldCount \<le> BlobStruct_fieldCount e m blobStruct then
        (case decode_field swapsNeeded e stringDataStart m currentStruct of
           Inl err \<Rightarrow> Inl err
         | Inr (field, m') \<Rightarrow>
             (case read_fields swapsNeeded e stringDataStart blobStruct m'
                     (currentStruct + sizeof_BlobField) (fieldCount + 1) of
                Inl err \<Rightarrow> Inl err
              | Inr (fs, cur, mf) \<Rightarrow> Inr (field # fs, cur, mf)))
      else Inr ([], currentStruct, m))"
  by pat_completeness auto
termination
  by (relation "measure (\<lambda>(swapsNeeded, e, stringDataStart, blobStruct, m, currentStruct, fieldCount).
        length m - currentStruct)")
     (auto dest!: decode_field_Inr simp: sizeof_BlobField_def)

text \<open>The constant loop, lines 341 to 358.\<close>

function read_constants ::
  "bool \<Rightarrow> endian \<Rightarrow> nat \<Rightarrow> nat \<Rightarrow> memory \<Rightarrow> nat \<Rightarrow> 32 word \<Rightarrow> error + (Constant list \<times> nat \<times> memory)"
where
  "read_constants swapsNeeded e stringDataStart blobStruct m currentStruct constCount =
     (if constCount \<le> BlobStruct_constCount e m blobStruct then
        (case decode_constant swapsNeeded e stringDataStart m currentStruct of
           Inl err \<Rightarrow> Inl err
         | Inr (c, m') \<Rightarrow>
             (case read_constants swapsNeeded e stringDataStart blobStruct m'
                     (currentStruct + sizeof_BlobConstant) (constCount + 1) of
                Inl err \<Rightarrow> Inl err
              | Inr (cs, cur, mf) \<Rightarrow> Inr (c # cs, cur, mf)))
      else Inr ([], currentStruct, m))"
  by pat_completeness auto
termination
  by (relation "measure (\<lambda>(swapsNeeded, e, stringDataStart, blobStruct, m, currentStruct, constCount).
        length m - currentStruct)")
     (auto dest!: decode_constant_Inr simp: sizeof_BlobConstant_def)

declare read_strings.simps [simp del]
declare read_fields.simps [simp del]
declare read_constants.simps [simp del]

lemma read_fields_Inr:
  "read_fields swapsNeeded e stringDataStart blobStruct m currentStruct fieldCount = Inr (fs, cur, mf)
   \<Longrightarrow> currentStruct \<le> cur \<and> length mf = length m"
proof (induction swapsNeeded e stringDataStart blobStruct m currentStruct fieldCount
    arbitrary: fs cur mf rule: read_fields.induct)
  case (1 swapsNeeded e stringDataStart blobStruct m currentStruct fieldCount)
  show ?case
  proof (cases "fieldCount \<le> BlobStruct_fieldCount e m blobStruct")
    case False
    with "1.prems" show ?thesis
      by (subst (asm) read_fields.simps) simp
  next
    case True
    with "1.prems" obtain field m' fs' where
      d: "decode_field swapsNeeded e stringDataStart m currentStruct = Inr (field, m')" and
      r: "read_fields swapsNeeded e stringDataStart blobStruct m'
            (currentStruct + sizeof_BlobField) (fieldCount + 1) = Inr (fs', cur, mf)"
      by (subst (asm) read_fields.simps) (auto split: sum.splits)
    from "1.IH" True d r
    have "currentStruct + sizeof_BlobField \<le> cur \<and> length mf = length m'"
      by blast
    with decode_field_Inr [OF d] show ?thesis
      by simp
  qed
qed

lemma read_constants_Inr:
  "read_constants swapsNeeded e stringDataStart blobStruct m currentStruct constCount = Inr (cs, cur, mf)
   \<Longrightarrow> currentStruct \<le> cur \<and> length mf = length m"
proof (induction swapsNeeded e stringDataStart blobStruct m currentStruct constCount
    arbitrary: cs cur mf rule: read_constants.induct)
  case (1 swapsNeeded e stringDataStart blobStruct m currentStruct constCount)
  show ?case
  proof (cases "constCount \<le> BlobStruct_constCount e m blobStruct")
    case False
    with "1.prems" show ?thesis
      by (subst (asm) read_constants.simps) simp
  next
    case True
    with "1.prems" obtain c m' cs' where
      d: "decode_constant swapsNeeded e stringDataStart m currentStruct = Inr (c, m')" and
      r: "read_constants swapsNeeded e stringDataStart blobStruct m'
            (currentStruct + sizeof_BlobConstant) (constCount + 1) = Inr (cs', cur, mf)"
      by (subst (asm) read_constants.simps) (auto split: sum.splits)
    from "1.IH" True d r
    have "currentStruct + sizeof_BlobConstant \<le> cur \<and> length mf = length m'"
      by blast
    with decode_constant_Inr [OF d] show ?thesis
      by simp
  qed
qed

text \<open>
  Lines 307 to 318: the new \<^verbatim>\<open>Structure\<close> with its name, its superclass name and its
  size, read from the (already swapped) \<^verbatim>\<open>BlobStruct\<close>.
\<close>

definition decode_struct_head :: "endian \<Rightarrow> nat \<Rightarrow> memory \<Rightarrow> nat \<Rightarrow> error + Structure" where
  "decode_struct_head e stringDataStart m blobStruct =
     (let nameAt = BLOBSTRING_AT stringDataStart (BlobStruct_nameOffset e m blobStruct)
      in (case BlobString_length e m nameAt of
            Inl err \<Rightarrow> Inl err
          | Inr nameLen \<Rightarrow>
              if - 1 = BlobStruct_superName e m blobStruct then
                Inr \<lparr> name = BlobString_data nameAt, nameLength = ucast nameLen,
                      superName = None, superNameLength = 0,
                      size_of = BlobStruct_sizeOf e m blobStruct,
                      fields_v = [], constants_v = [] \<rparr>
              else
                (let superAt = BLOBSTRING_AT stringDataStart (BlobStruct_superName e m blobStruct)
                 in (case BlobString_length e m superAt of
                       Inl err \<Rightarrow> Inl err
                     | Inr superLen \<Rightarrow>
                         Inr \<lparr> name = BlobString_data nameAt, nameLength = ucast nameLen,
                               superName = Some (BlobString_data superAt),
                               superNameLength = ucast superLen,
                               size_of = BlobStruct_sizeOf e m blobStruct,
                               fields_v = [], constants_v = [] \<rparr>))))"

text \<open>
  One iteration of the structure loop, lines 299 to 360: the result is the built structure,
  the cursor \<^verbatim>\<open>currentStruct\<close> after it and the memory.
\<close>

definition read_struct ::
  "bool \<Rightarrow> endian \<Rightarrow> nat \<Rightarrow> memory \<Rightarrow> nat \<Rightarrow> error + (Structure \<times> nat \<times> memory)"
where
  "read_struct swapsNeeded e stringDataStart m currentStruct =
     (if currentStruct + sizeof_BlobStruct \<le> length m then
        let blobStruct = currentStruct;
            m1 = (if swapsNeeded then BlobStruct_endian_swap m blobStruct else m);
            cur1 = currentStruct + sizeof_BlobStruct
        in (case decode_struct_head e stringDataStart m1 blobStruct of
              Inl err \<Rightarrow> Inl err
            | Inr builtStruct \<Rightarrow>
                (case read_fields swapsNeeded e stringDataStart blobStruct m1 cur1 1 of
                   Inl err \<Rightarrow> Inl err
                 | Inr (fs, cur2, m2) \<Rightarrow>
                     (case read_constants swapsNeeded e stringDataStart blobStruct m2 cur2 1 of
                        Inl err \<Rightarrow> Inl err
                      | Inr (cs, cur3, m3) \<Rightarrow>
                          Inr (builtStruct\<lparr>fields_v := fs, constants_v := cs\<rparr>, cur3, m3))))
      else Inl InvalidAccess)"

lemma read_struct_Inr:
  assumes "read_struct swapsNeeded e stringDataStart m currentStruct = Inr (s, cur, mf)"
  shows "currentStruct + sizeof_BlobStruct \<le> cur \<and> currentStruct + sizeof_BlobStruct \<le> length m
    \<and> length mf = length m"
  using assms
  by (auto simp: read_struct_def Let_def split: if_splits sum.splits
      dest!: read_fields_Inr read_constants_Inr)

text \<open>
  The structure loop, lines 296 to 362; \<^verbatim>\<open>blobHdrV1.structureCount\<close> is a member of the
  local header and cannot change.
\<close>

function read_structs ::
  "bool \<Rightarrow> endian \<Rightarrow> nat \<Rightarrow> 32 word \<Rightarrow> memory \<Rightarrow> nat \<Rightarrow> 32 word
    \<Rightarrow> error + (Structure list \<times> nat \<times> memory)"
where
  "read_structs swapsNeeded e stringDataStart structureCount_hdr m currentStruct structCount =
     (if structCount \<le> structureCount_hdr then
        (case read_struct swapsNeeded e stringDataStart m currentStruct of
           Inl err \<Rightarrow> Inl err
         | Inr (builtStruct, cur, m') \<Rightarrow>
             (case read_structs swapsNeeded e stringDataStart structureCount_hdr m' cur
                     (structCount + 1) of
                Inl err \<Rightarrow> Inl err
              | Inr (structs, curf, mf) \<Rightarrow> Inr (builtStruct # structs, curf, mf)))
      else Inr ([], currentStruct, m))"
  by pat_completeness auto
termination
  by (relation "measure (\<lambda>(swapsNeeded, e, stringDataStart, structureCount_hdr, m, currentStruct,
        structCount). length m - currentStruct)")
     (auto dest!: read_struct_Inr simp: sizeof_BlobStruct_def)

declare read_structs.simps [simp del]

section \<open>Sorting the structures\<close>

text \<open>
  \<^verbatim>\<open>strcmp\<close> on two addresses in the buffer: it compares bytes as \<^verbatim>\<open>unsigned char\<close> up to
  the first difference or a NUL byte; it knows nothing of \<^verbatim>\<open>nameLength\<close>.
\<close>

function strcmp :: "memory \<Rightarrow> nat \<Rightarrow> nat \<Rightarrow> error + int" where
  "strcmp m s1 s2 =
     (if s1 < length m \<and> s2 < length m then
        if m ! s1 \<noteq> m ! s2 then Inr (uint (m ! s1) - uint (m ! s2))
        else if m ! s1 = 0 then Inr 0
        else strcmp m (s1 + 1) (s2 + 1)
      else Inl InvalidAccess)"
  by pat_completeness auto
termination
  by (relation "measure (\<lambda>(m, s1, s2). length m - s1)") auto

declare strcmp.simps [simp del]

definition compareStructs :: "memory \<Rightarrow> Structure \<Rightarrow> Structure \<Rightarrow> error + bool" where
  "compareStructs m first second =
     (case strcmp m (name first) (name second) of
        Inl err \<Rightarrow> Inl err
      | Inr r \<Rightarrow> Inr (r < 0))"

text \<open>
  \<^verbatim>\<open>std::sort(structs.begin(), structs.end(), compareStructs)\<close>. The C++ library fixes the
  result of \<^verbatim>\<open>std::sort\<close> only as a permutation ordered by the comparator, and not which
  comparisons are made. The model is the insertion sort that the usual implementations run
  on short ranges: the elements are taken from left to right, each put into the sorted
  prefix before the first element it is less than. This sort is stable. On longer ranges
  (above 16 elements in libstdc++) the library sorts otherwise, and structures whose names
  compare equal may come out in another order than here; the examples sorted below have
  at most three structures.
\<close>

fun insert_struct :: "memory \<Rightarrow> Structure \<Rightarrow> Structure list \<Rightarrow> error + Structure list" where
  "insert_struct m x [] = Inr [x]"
| "insert_struct m x (y # ys) =
     (case compareStructs m x y of
        Inl err \<Rightarrow> Inl err
      | Inr True \<Rightarrow> Inr (x # y # ys)
      | Inr False \<Rightarrow>
          (case insert_struct m x ys of
             Inl err \<Rightarrow> Inl err
           | Inr zs \<Rightarrow> Inr (y # zs)))"

fun insertion_loop :: "memory \<Rightarrow> Structure list \<Rightarrow> Structure list \<Rightarrow> error + Structure list" where
  "insertion_loop m acc [] = Inr acc"
| "insertion_loop m acc (x # xs) =
     (case insert_struct m x acc of
        Inl err \<Rightarrow> Inl err
      | Inr acc' \<Rightarrow> insertion_loop m acc' xs)"

definition sort_structs :: "memory \<Rightarrow> Structure list \<Rightarrow> error + Structure list" where
  "sort_structs m xs = insertion_loop m [] xs"

section \<open>The program\<close>

text \<open>
  What \<^verbatim>\<open>main\<close> has when it starts printing the structures: the header, the flag, the
  strings listed, the structures in the order decoded and in the order sorted, and the
  buffer as the decoding left it.
\<close>

record Report =
  out_blobHdrV1 :: BlobHeaderV1
  out_swapsNeeded :: bool
  out_strings :: "StringEntry list"
  out_decoded :: "Structure list"
  out_structs :: "Structure list"
  out_blobBuffer :: memory

text \<open>
  \<^verbatim>\<open>main\<close> on a file that could be opened, given as its bytes. \<^verbatim>\<open>fread\<close> of \<open>n\<close> bytes from
  the start of the file returns \<open>min n (length file)\<close> and fills that many bytes;
  \<^verbatim>\<open>malloc\<close> is taken to succeed.
\<close>

definition main :: "endian \<Rightarrow> byte list \<Rightarrow> error + Report" where
  "main e file =
     (let rb = min sizeof_BlobHeaderV1 (length file) in
      if sizeof_BlobHeaderV1 \<noteq> rb then Inl HeaderReadError
      else
        let (swaps, hdr) = decode_header e (take sizeof_BlobHeaderV1 file);
            blobLength = sizeof_BlobHeaderV1 + unat (structDataSize hdr)
                           + unat (stringTableDataSize hdr);
            rb = min blobLength (length file)
        in if blobLength \<noteq> rb then Inl BlobReadError
           else
             let buf = take blobLength file;
                 stringDataStart = sizeof_BlobHeaderV1 + unat (structDataSize hdr);
                 stringDataEnd = stringDataStart + unat (stringTableDataSize hdr)
             in (case read_strings swaps e stringDataStart stringDataEnd buf stringDataStart 1 of
                   Inl err \<Rightarrow> Inl err
                 | Inr (entries, m1) \<Rightarrow>
                     (case read_structs swaps e stringDataStart (structureCount hdr) m1
                             sizeof_BlobHeaderV1 1 of
                        Inl err \<Rightarrow> Inl err
                      | Inr (built, cur, m2) \<Rightarrow>
                          (case sort_structs m2 built of
                             Inl err \<Rightarrow> Inl err
                           | Inr sortedStructs \<Rightarrow>
                               Inr \<lparr> out_blobHdrV1 = hdr, out_swapsNeeded = swaps,
                                     out_strings = entries, out_decoded = built,
                                     out_structs = sortedStructs, out_blobBuffer = m2 \<rparr>))))"

section \<open>Properties of the byte swaps\<close>

lemma swap_bytes_nth:
  "i < length m \<Longrightarrow> j < length m \<Longrightarrow>
   swap_bytes m i j ! k = (if k = j then m ! i else if k = i then m ! j else m ! k)"
  by (simp add: swap_bytes_def nth_list_update)

lemma swap_bytes_nth_other:
  "k \<noteq> i \<Longrightarrow> k \<noteq> j \<Longrightarrow> swap_bytes m i j ! k = m ! k"
  by (simp add: swap_bytes_def)

lemma swap_u16_nth_in:
  assumes "p + 2 \<le> length m" and "j < 2"
  shows "swap_u16 m p ! (p + j) = m ! (p + (1 - j))"
proof -
  from assms(2) have "j = 0 \<or> j = 1" by arith
  with assms(1) show ?thesis
    by (auto simp: swap_u16_def swap_bytes_nth)
qed

lemma swap_u16_nth_out:
  "k < p \<or> p + 2 \<le> k \<Longrightarrow> swap_u16 m p ! k = m ! k"
  by (auto simp: swap_u16_def swap_bytes_nth_other)

lemma swap_u32_nth_in:
  assumes "p + 4 \<le> length m" and "j < 4"
  shows "swap_u32 m p ! (p + j) = m ! (p + (3 - j))"
proof -
  from assms(2) have "j = 0 \<or> j = 1 \<or> j = 2 \<or> j = 3" by arith
  with assms(1) show ?thesis
    by (auto simp: swap_u32_def swap_bytes_nth)
qed

lemma swap_u32_nth_out:
  "k < p \<or> p + 4 \<le> k \<Longrightarrow> swap_u32 m p ! k = m ! k"
  by (auto simp: swap_u32_def swap_bytes_nth_other)



lemma swap_value_bytes_nth_in:
  assumes "q + 8 \<le> length m" and "j < 8"
  shows "swap_value_bytes m q ! (q + j) = m ! (q + (7 - j))"
proof -
  from assms(2) have "j = 0 \<or> j = 1 \<or> j = 2 \<or> j = 3 \<or> j = 4 \<or> j = 5 \<or> j = 6 \<or> j = 7" by arith
  with assms(1) show ?thesis
    unfolding swap_value_bytes_def
    by (elim disjE) (simp_all add: swap_bytes_nth)
qed

lemma swap_value_bytes_nth_out:
  "k < q \<or> q + 8 \<le> k \<Longrightarrow> swap_value_bytes m q ! k = m ! k"
  by (auto simp: swap_value_bytes_def swap_bytes_nth_other)

lemma in_range_offset:
  assumes "\<not> (k < p \<or> p + n \<le> k)"
  obtains j :: nat where "k = p + j" and "j < n"
proof
  show "k = p + (k - p)" using assms by simp
  show "k - p < n" using assms by arith
qed

lemma swap_u16_twice:
  assumes "p + 2 \<le> length m"
  shows "swap_u16 (swap_u16 m p) p = m"
proof (rule nth_equalityI)
  show "length (swap_u16 (swap_u16 m p) p) = length m" by simp
next
  fix k assume "k < length (swap_u16 (swap_u16 m p) p)"
  show "swap_u16 (swap_u16 m p) p ! k = m ! k"
  proof (cases "k < p \<or> p + 2 \<le> k")
    case True
    then show ?thesis by (simp add: swap_u16_nth_out)
  next
    case False
    then obtain j where j: "k = p + j" "j < 2"
      by (rule in_range_offset)
    have "swap_u16 (swap_u16 m p) p ! (p + j) = swap_u16 m p ! (p + (1 - j))"
      by (rule swap_u16_nth_in) (use assms j in simp_all)
    also have "\<dots> = m ! (p + (1 - (1 - j)))"
      by (rule swap_u16_nth_in) (use assms j in simp_all)
    also have "1 - (1 - j) = j"
      using j by arith
    finally show ?thesis
      using j by simp
  qed
qed

lemma swap_u32_twice:
  assumes "p + 4 \<le> length m"
  shows "swap_u32 (swap_u32 m p) p = m"
proof (rule nth_equalityI)
  show "length (swap_u32 (swap_u32 m p) p) = length m" by simp
next
  fix k assume "k < length (swap_u32 (swap_u32 m p) p)"
  show "swap_u32 (swap_u32 m p) p ! k = m ! k"
  proof (cases "k < p \<or> p + 4 \<le> k")
    case True
    then show ?thesis by (simp add: swap_u32_nth_out)
  next
    case False
    then obtain j where j: "k = p + j" "j < 4"
      by (rule in_range_offset)
    have "swap_u32 (swap_u32 m p) p ! (p + j) = swap_u32 m p ! (p + (3 - j))"
      by (rule swap_u32_nth_in) (use assms j in simp_all)
    also have "\<dots> = m ! (p + (3 - (3 - j)))"
      by (rule swap_u32_nth_in) (use assms j in simp_all)
    also have "3 - (3 - j) = j"
      using j by arith
    finally show ?thesis
      using j by simp
  qed
qed

lemma swap_value_bytes_twice:
  assumes "p + 8 \<le> length m"
  shows "swap_value_bytes (swap_value_bytes m p) p = m"
proof (rule nth_equalityI)
  show "length (swap_value_bytes (swap_value_bytes m p) p) = length m" by simp
next
  fix k assume "k < length (swap_value_bytes (swap_value_bytes m p) p)"
  show "swap_value_bytes (swap_value_bytes m p) p ! k = m ! k"
  proof (cases "k < p \<or> p + 8 \<le> k")
    case True
    then show ?thesis by (simp add: swap_value_bytes_nth_out)
  next
    case False
    then obtain j where j: "k = p + j" "j < 8"
      by (rule in_range_offset)
    have "swap_value_bytes (swap_value_bytes m p) p ! (p + j) = swap_value_bytes m p ! (p + (7 - j))"
      by (rule swap_value_bytes_nth_in) (use assms j in simp_all)
    also have "\<dots> = m ! (p + (7 - (7 - j)))"
      by (rule swap_value_bytes_nth_in) (use assms j in simp_all)
    also have "7 - (7 - j) = j"
      using j by arith
    finally show ?thesis
      using j by simp
  qed
qed


lemma BlobConstant_endian_swap_twice:
  assumes "p + 12 \<le> length m"
  shows "BlobConstant_endian_swap (BlobConstant_endian_swap m p) p = m"
proof -
  have comm: "swap_u32 (swap_value_bytes x (p + 4)) p = swap_value_bytes (swap_u32 x p) (p + 4)"
    if "p + 12 \<le> length x" for x
  proof (rule nth_equalityI)
    show "length (swap_u32 (swap_value_bytes x (p + 4)) p) = length (swap_value_bytes (swap_u32 x p) (p + 4))"
      by simp
  next
    fix k assume "k < length (swap_u32 (swap_value_bytes x (p + 4)) p)"
    show "swap_u32 (swap_value_bytes x (p + 4)) p ! k = swap_value_bytes (swap_u32 x p) (p + 4) ! k"
    proof (cases "k < p \<or> p + 4 \<le> k")
      case out32: True
      show ?thesis
      proof (cases "k < p + 4 \<or> p + 4 + 8 \<le> k")
        case True
        with out32 show ?thesis
          by (simp add: swap_u32_nth_out swap_value_bytes_nth_out)
      next
        case False
        then obtain j where j: "k = p + 4 + j" "j < 8"
          by (rule in_range_offset)
        have "swap_value_bytes (swap_u32 x p) (p + 4) ! (p + 4 + j) = swap_u32 x p ! (p + 4 + (7 - j))"
          by (rule swap_value_bytes_nth_in) (use that j in simp_all)
        also have "\<dots> = x ! (p + 4 + (7 - j))"
          by (rule swap_u32_nth_out) simp
        finally have r: "swap_value_bytes (swap_u32 x p) (p + 4) ! k = x ! (p + 4 + (7 - j))"
          using j by simp
        have "swap_u32 (swap_value_bytes x (p + 4)) p ! k = swap_value_bytes x (p + 4) ! (p + 4 + j)"
          using out32 j by (simp add: swap_u32_nth_out)
        also have "\<dots> = x ! (p + 4 + (7 - j))"
          by (rule swap_value_bytes_nth_in) (use that j in simp_all)
        finally show ?thesis
          using r by simp
      qed
    next
      case False
      then obtain j where j: "k = p + j" "j < 4"
        by (rule in_range_offset)
      have "swap_u32 (swap_value_bytes x (p + 4)) p ! (p + j) = swap_value_bytes x (p + 4) ! (p + (3 - j))"
        by (rule swap_u32_nth_in) (use that j in simp_all)
      also have "\<dots> = x ! (p + (3 - j))"
        by (rule swap_value_bytes_nth_out) (use j in arith)
      finally have l: "swap_u32 (swap_value_bytes x (p + 4)) p ! k = x ! (p + (3 - j))"
        using j by simp
      have "swap_value_bytes (swap_u32 x p) (p + 4) ! k = swap_u32 x p ! (p + j)"
        using j by (simp add: swap_value_bytes_nth_out)
      also have "\<dots> = x ! (p + (3 - j))"
        by (rule swap_u32_nth_in) (use that j in simp_all)
      finally show ?thesis
        using l by simp
    qed
  qed
  have "BlobConstant_endian_swap (BlobConstant_endian_swap m p) p
      = swap_value_bytes (swap_u32 (swap_value_bytes (swap_u32 m p) (p + 4)) p) (p + 4)"
    by (simp add: BlobConstant_endian_swap_def)
  also have "\<dots> = swap_value_bytes (swap_value_bytes (swap_u32 (swap_u32 m p) p) (p + 4)) (p + 4)"
    using assms by (simp add: comm)
  also have "\<dots> = m"
    using assms by (simp add: swap_u32_twice swap_value_bytes_twice)
  finally show ?thesis .
qed

text \<open>
  C8. The swap primitives reverse the bytes of their operand where it lies and are their
  own inverses, for the two bytes of \<^verbatim>\<open>swap_u16\<close>, the four of \<^verbatim>\<open>swap_u32\<close> and the eight of
  the value of a constant; the bytes around the operand are left as they are. The swap of
  the value exchanges the bytes 0 and 7, 1 and 6, 2 and 5, 3 and 4, counted from the start
  of \<^verbatim>\<open>value\<close>, at any address \<open>p\<close>: nothing is asked of the alignment of \<open>p\<close>.
\<close>

theorem swap_primitives_reversible:
  "(p + 2 \<le> length m \<longrightarrow>
      swap_u16 (swap_u16 m p) p = m
      \<and> length (swap_u16 m p) = length m
      \<and> (\<forall>j<2. swap_u16 m p ! (p + j) = m ! (p + (1 - j)))
      \<and> (\<forall>k. k < p \<or> p + 2 \<le> k \<longrightarrow> swap_u16 m p ! k = m ! k))
   \<and> (p + 4 \<le> length m \<longrightarrow>
      swap_u32 (swap_u32 m p) p = m
      \<and> length (swap_u32 m p) = length m
      \<and> (\<forall>j<4. swap_u32 m p ! (p + j) = m ! (p + (3 - j)))
      \<and> (\<forall>k. k < p \<or> p + 4 \<le> k \<longrightarrow> swap_u32 m p ! k = m ! k))
   \<and> (p + 8 \<le> length m \<longrightarrow>
      swap_value_bytes (swap_value_bytes m p) p = m
      \<and> length (swap_value_bytes m p) = length m
      \<and> (\<forall>j<8. swap_value_bytes m p ! (p + j) = m ! (p + (7 - j)))
      \<and> (\<forall>k. k < p \<or> p + 8 \<le> k \<longrightarrow> swap_value_bytes m p ! k = m ! k))
   \<and> (p + 12 \<le> length m \<longrightarrow>
      BlobConstant_endian_swap (BlobConstant_endian_swap m p) p = m
      \<and> BlobConstant_endian_swap m p = swap_value_bytes (swap_u32 m p) (p + 4)
      \<and> (\<forall>j<8. BlobConstant_endian_swap m p ! (p + 4 + j) = m ! (p + 4 + (7 - j))))"
proof -
  have c: "BlobConstant_endian_swap m p ! (p + 4 + j) = m ! (p + 4 + (7 - j))"
    if b: "p + 12 \<le> length m" and j: "j < 8" for j
  proof -
    have "BlobConstant_endian_swap m p ! (p + 4 + j) = swap_u32 m p ! (p + 4 + (7 - j))"
      unfolding BlobConstant_endian_swap_def
      by (rule swap_value_bytes_nth_in) (use b j in simp_all)
    also have "\<dots> = m ! (p + 4 + (7 - j))"
      by (rule swap_u32_nth_out) simp
    finally show ?thesis .
  qed
  have u16: "p + 2 \<le> length m \<longrightarrow>
      swap_u16 (swap_u16 m p) p = m
      \<and> length (swap_u16 m p) = length m
      \<and> (\<forall>j<2. swap_u16 m p ! (p + j) = m ! (p + (1 - j)))
      \<and> (\<forall>k. k < p \<or> p + 2 \<le> k \<longrightarrow> swap_u16 m p ! k = m ! k)"
    by (simp add: swap_u16_twice swap_u16_nth_in swap_u16_nth_out)
  have u32: "p + 4 \<le> length m \<longrightarrow>
      swap_u32 (swap_u32 m p) p = m
      \<and> length (swap_u32 m p) = length m
      \<and> (\<forall>j<4. swap_u32 m p ! (p + j) = m ! (p + (3 - j)))
      \<and> (\<forall>k. k < p \<or> p + 4 \<le> k \<longrightarrow> swap_u32 m p ! k = m ! k)"
    by (simp add: swap_u32_twice swap_u32_nth_in swap_u32_nth_out)
  have u64: "p + 8 \<le> length m \<longrightarrow>
      swap_value_bytes (swap_value_bytes m p) p = m
      \<and> length (swap_value_bytes m p) = length m
      \<and> (\<forall>j<8. swap_value_bytes m p ! (p + j) = m ! (p + (7 - j)))
      \<and> (\<forall>k. k < p \<or> p + 8 \<le> k \<longrightarrow> swap_value_bytes m p ! k = m ! k)"
    by (simp add: swap_value_bytes_twice swap_value_bytes_nth_in swap_value_bytes_nth_out)
  have const: "p + 12 \<le> length m \<longrightarrow>
      BlobConstant_endian_swap (BlobConstant_endian_swap m p) p = m
      \<and> BlobConstant_endian_swap m p = swap_value_bytes (swap_u32 m p) (p + 4)
      \<and> (\<forall>j<8. BlobConstant_endian_swap m p ! (p + 4 + j) = m ! (p + 4 + (7 - j)))"
    using c by (simp add: BlobConstant_endian_swap_twice) (simp add: BlobConstant_endian_swap_def)
  from u16 u32 u64 const show ?thesis
    by blast
qed

theorem swap_primitives_reversible_witness:
  "(1::nat) + 12 \<le> length [0, 1, 2, 3, 4, 5, 6, 7, 8, 9, 10, 11, 12 :: byte]
   \<and> swap_u16 [0, 1, 2, 3, 4, 5, 6, 7, 8, 9, 10, 11, 12 :: byte] 1
       = [0, 2, 1, 3, 4, 5, 6, 7, 8, 9, 10, 11, 12]
   \<and> swap_u16 (swap_u16 [0, 1, 2, 3, 4, 5, 6, 7, 8, 9, 10, 11, 12 :: byte] 1) 1
       = [0, 1, 2, 3, 4, 5, 6, 7, 8, 9, 10, 11, 12]
   \<and> swap_u32 [0, 1, 2, 3, 4, 5, 6, 7, 8, 9, 10, 11, 12 :: byte] 1
       = [0, 4, 3, 2, 1, 5, 6, 7, 8, 9, 10, 11, 12]
   \<and> swap_u32 (swap_u32 [0, 1, 2, 3, 4, 5, 6, 7, 8, 9, 10, 11, 12 :: byte] 1) 1
       = [0, 1, 2, 3, 4, 5, 6, 7, 8, 9, 10, 11, 12]
   \<and> BlobConstant_endian_swap [0, 1, 2, 3, 4, 5, 6, 7, 8, 9, 10, 11, 12 :: byte] 1
       = [0, 4, 3, 2, 1, 12, 11, 10, 9, 8, 7, 6, 5]
   \<and> BlobConstant_endian_swap
        (BlobConstant_endian_swap [0, 1, 2, 3, 4, 5, 6, 7, 8, 9, 10, 11, 12 :: byte] 1) 1
       = [0, 1, 2, 3, 4, 5, 6, 7, 8, 9, 10, 11, 12]"
  using swap_primitives_reversible [of 1 "[0, 1, 2, 3, 4, 5, 6, 7, 8, 9, 10, 11, 12 :: byte]"]
  by (simp add: BlobConstant_endian_swap_def swap_value_bytes_def swap_u32_def swap_u16_def
      swap_bytes_def)

section \<open>Properties of the header decoder\<close>

lemma swap_u32_bytes:
  assumes "p + 4 \<le> length m"
  shows "swap_u32 m p ! p = m ! (p + 3)" and "swap_u32 m p ! (p + 1) = m ! (p + 2)"
    and "swap_u32 m p ! (p + 2) = m ! (p + 1)" and "swap_u32 m p ! (p + 3) = m ! p"
  using swap_u32_nth_in [OF assms, of 0] swap_u32_nth_in [OF assms, of 1]
    swap_u32_nth_in [OF assms, of 2] swap_u32_nth_in [OF assms, of 3]
  by simp_all

lemma load_u32_swap_u32:
  assumes "p + 4 \<le> length m"
  shows "load_u32 e (swap_u32 m p) p = load_u32 (opposite e) m p"
  unfolding load_u32_def
  by (cases e) (simp_all only: swap_u32_bytes [OF assms] endian.case opposite.simps)

lemma load_u32_swap_u32_other:
  "q + 4 \<le> p \<or> p + 4 \<le> q \<Longrightarrow> load_u32 e (swap_u32 m p) q = load_u32 e m q"
  by (auto simp: load_u32_def swap_u32_nth_out split: endian.splits)

lemma nth_swap_u32_other:
  "k < p \<or> p + 4 \<le> k \<Longrightarrow> swap_u32 m p ! k = m ! k"
  by (rule swap_u32_nth_out)

lemma header_fields_endian_swap:
  assumes "length hdr = 20"
  shows "header_fields e (BlobHeaderV1_endian_swap hdr 0) = header_fields (opposite e) hdr"
  using assms
  by (simp add: header_fields_def BlobHeaderV1_endian_swap_def load_u32_swap_u32
      load_u32_swap_u32_other swap_u32_nth_out)

lemma load_u32_take:
  "p + 4 \<le> n \<Longrightarrow> load_u32 e (take n m) p = load_u32 e m p"
  by (simp add: load_u32_def split: endian.splits)

lemma load_u32_store_u32: "load_u32 e (store_u32 e w) 0 = w"
proof -
  have "cat_u32 (ucast (drop_bit 24 w)) (ucast (drop_bit 16 w)) (ucast (drop_bit 8 w)) (ucast w) = w"
    unfolding cat_u32_def
    apply (rule bit_word_eqI)
    subgoal for n
      by (cases "n < 8"; cases "n < 16"; cases "n < 24") (auto simp: bit_simps)
    done
  then show ?thesis
    by (cases e) (simp_all add: load_u32_def store_u32_def)
qed

lemma store_u32_1:
  "store_u32 LittleEndian 1 = [1, 0, 0, 0]" "store_u32 BigEndian 1 = [0, 0, 0, 1]"
  by (simp_all add: store_u32_def)

lemma load_1:
  assumes "take 4 hdr = store_u32 e' 1"
  shows "load_u32 e hdr 0 = (if e = e' then 1 else 0x1000000)"
proof -
  have "load_u32 e hdr 0 = load_u32 e (take 4 hdr) 0"
    by (simp add: load_u32_take)
  also have "\<dots> = (if e = e' then 1 else 0x1000000)"
    unfolding assms
    by (cases e; cases e') (simp_all add: load_u32_def store_u32_def cat_u32_def)
  finally show ?thesis .
qed

text \<open>
  C1. When the raw \<^verbatim>\<open>coreVersion\<close> exceeds \<open>0xFFFF\<close> the flag is set and the header used from
  there on has each of its four 32-bit fields read in the opposite byte order, that is,
  byte-swapped (the other four fields are single bytes); otherwise the flag is clear and
  the fields are as read. A header whose version 1 was stored in the byte order of the
  reading host, or in the opposite one, decodes to \<^verbatim>\<open>coreVersion\<close> 1 in both cases.
\<close>

theorem header_byte_order:
  assumes "length hdr = sizeof_BlobHeaderV1"
  shows "(0xFFFF < load_u32 e hdr 0 \<longrightarrow>
            decode_header e hdr = (True, header_fields (opposite e) hdr))
       \<and> (load_u32 e hdr 0 \<le> 0xFFFF \<longrightarrow>
            decode_header e hdr = (False, header_fields e hdr))
       \<and> (take 4 hdr = store_u32 e 1 \<longrightarrow>
            decode_header e hdr = (False, header_fields e hdr)
            \<and> coreVersion (snd (decode_header e hdr)) = 1)
       \<and> (take 4 hdr = store_u32 (opposite e) 1 \<longrightarrow>
            decode_header e hdr = (True, header_fields (opposite e) hdr)
            \<and> coreVersion (snd (decode_header e hdr)) = 1)"
proof -
  have len: "length hdr = 20"
    using assms by (simp add: sizeof_BlobHeaderV1_def)
  have cv: "coreVersion (header_fields x hdr) = load_u32 x hdr 0" for x
    by (simp add: header_fields_def)
  have swapped: "decode_header e hdr = (True, header_fields (opposite e) hdr)"
    if "0xFFFF < load_u32 e hdr 0"
    using that by (simp add: decode_header_def Let_def cv header_fields_endian_swap [OF len])
  have native: "decode_header e hdr = (False, header_fields e hdr)"
    if "load_u32 e hdr 0 \<le> 0xFFFF"
    using that by (simp add: decode_header_def Let_def cv not_less)
  have one_native: "load_u32 e hdr 0 = 1" if "take 4 hdr = store_u32 e 1"
    using load_1 [OF that, of e] by simp
  have one_reversed: "load_u32 e hdr 0 = 0x1000000 \<and> load_u32 (opposite e) hdr 0 = 1"
    if "take 4 hdr = store_u32 (opposite e) 1"
    using load_1 [OF that, of e] load_1 [OF that, of "opposite e"] by (cases e) simp_all
  show ?thesis
    using swapped native one_native one_reversed
    by (auto simp: cv)
qed

theorem header_byte_order_witness:
  "length [0x01, 0x00, 0x00, 0x00, 0x01, 0x08, 0x01, 0x00, 0x4C, 0x00, 0x00, 0x00,
           0x10, 0x00, 0x00, 0x00, 0x02, 0x00, 0x00, 0x00 :: byte] = sizeof_BlobHeaderV1
   \<and> 0xFFFF < load_u32 BigEndian
        [0x01, 0x00, 0x00, 0x00, 0x01, 0x08, 0x01, 0x00, 0x4C, 0x00, 0x00, 0x00,
         0x10, 0x00, 0x00, 0x00, 0x02, 0x00, 0x00, 0x00] 0
   \<and> take 4 [0x01, 0x00, 0x00, 0x00, 0x01, 0x08, 0x01, 0x00, 0x4C, 0x00, 0x00, 0x00,
         0x10, 0x00, 0x00, 0x00, 0x02, 0x00, 0x00, 0x00 :: byte] = store_u32 (opposite BigEndian) 1
   \<and> decode_header BigEndian
        [0x01, 0x00, 0x00, 0x00, 0x01, 0x08, 0x01, 0x00, 0x4C, 0x00, 0x00, 0x00,
         0x10, 0x00, 0x00, 0x00, 0x02, 0x00, 0x00, 0x00]
       = (True, \<lparr> coreVersion = 1, sizeofBool = 1, sizeofUDATA = 8, bitfieldFormat = 1,
                  padding = 0, structDataSize = 76, stringTableDataSize = 16,
                  structureCount = 2 \<rparr>)
   \<and> load_u32 LittleEndian
        [0x01, 0x00, 0x00, 0x00, 0x01, 0x08, 0x01, 0x00, 0x4C, 0x00, 0x00, 0x00,
         0x10, 0x00, 0x00, 0x00, 0x02, 0x00, 0x00, 0x00] 0 \<le> 0xFFFF
   \<and> take 4 [0x01, 0x00, 0x00, 0x00, 0x01, 0x08, 0x01, 0x00, 0x4C, 0x00, 0x00, 0x00,
         0x10, 0x00, 0x00, 0x00, 0x02, 0x00, 0x00, 0x00 :: byte] = store_u32 LittleEndian 1
   \<and> decode_header LittleEndian
        [0x01, 0x00, 0x00, 0x00, 0x01, 0x08, 0x01, 0x00, 0x4C, 0x00, 0x00, 0x00,
         0x10, 0x00, 0x00, 0x00, 0x02, 0x00, 0x00, 0x00]
       = (False, \<lparr> coreVersion = 1, sizeofBool = 1, sizeofUDATA = 8, bitfieldFormat = 1,
                   padding = 0, structDataSize = 76, stringTableDataSize = 16,
                   structureCount = 2 \<rparr>)"
  using header_byte_order [of "[0x01, 0x00, 0x00, 0x00, 0x01, 0x08, 0x01, 0x00, 0x4C, 0x00, 0x00, 0x00,
         0x10, 0x00, 0x00, 0x00, 0x02, 0x00, 0x00, 0x00]" BigEndian]
    header_byte_order [of "[0x01, 0x00, 0x00, 0x00, 0x01, 0x08, 0x01, 0x00, 0x4C, 0x00, 0x00, 0x00,
         0x10, 0x00, 0x00, 0x00, 0x02, 0x00, 0x00, 0x00]" LittleEndian]
  by (simp add: sizeof_BlobHeaderV1_def load_u32_def cat_u32_def store_u32_def header_fields_def)

section \<open>What the loops leave unchanged\<close>

text \<open>
  Every loop keeps the length of the memory and the bytes below its cursor, and changes
  nothing at all when no swap is needed.
\<close>

lemma BlobString_endian_swap_nth_out:
  "k < p \<or> p + 2 \<le> k \<Longrightarrow> BlobString_endian_swap m p ! k = m ! k"
  by (simp add: BlobString_endian_swap_def swap_u16_nth_out)

lemma read_strings_step:
  assumes "currentString < stringDataEnd"
    and "read_strings swapsNeeded e stringDataStart stringDataEnd m currentString num = Inr (es, mf)"
  obtains es' where
    "currentString + sizeof_length \<le> length m"
    "es = \<lparr> stringNum = num, stringOffset = currentString - stringDataStart,
             stringLength = load_u16 e (if swapsNeeded then BlobString_endian_swap m currentString else m)
               currentString \<rparr> # es'"
    "read_strings swapsNeeded e stringDataStart stringDataEnd
       (if swapsNeeded then BlobString_endian_swap m currentString else m)
       (currentString + (unat (load_u16 e (if swapsNeeded then BlobString_endian_swap m currentString else m)
               currentString) + sizeof_length
          + unat (load_u16 e (if swapsNeeded then BlobString_endian_swap m currentString else m)
               currentString AND 1)))
       (num + 1) = Inr (es', mf)"
  using assms
  by (subst (asm) read_strings.simps) (auto simp: Let_def split: if_splits sum.splits)

lemma read_strings_done:
  "\<not> currentString < stringDataEnd \<Longrightarrow>
   read_strings swapsNeeded e stringDataStart stringDataEnd m currentString num = Inr ([], m)"
  by (subst read_strings.simps) simp

lemma read_strings_frame:
  "read_strings swapsNeeded e stringDataStart stringDataEnd m currentString num = Inr (es, mf)
   \<Longrightarrow> length mf = length m \<and> (\<forall>k<currentString. mf ! k = m ! k) \<and> (\<not> swapsNeeded \<longrightarrow> mf = m)"
proof (induction swapsNeeded e stringDataStart stringDataEnd m currentString num
    arbitrary: es mf rule: read_strings.induct)
  case (1 swapsNeeded e stringDataStart stringDataEnd m currentString num)
  show ?case
  proof (cases "currentString < stringDataEnd")
    case False
    with "1.prems" show ?thesis
      by (simp add: read_strings_done)
  next
    case True
    from True "1.prems" obtain es' where
      b: "currentString + sizeof_length \<le> length m" and
      r: "read_strings swapsNeeded e stringDataStart stringDataEnd
       (if swapsNeeded then BlobString_endian_swap m currentString else m)
       (currentString + (unat (load_u16 e (if swapsNeeded then BlobString_endian_swap m currentString else m)
               currentString) + sizeof_length
          + unat (load_u16 e (if swapsNeeded then BlobString_endian_swap m currentString else m)
               currentString AND 1)))
       (num + 1) = Inr (es', mf)"
      by (rule read_strings_step)
    have "length mf = length (if swapsNeeded then BlobString_endian_swap m currentString else m)
      \<and> (\<forall>k<currentString + (unat (load_u16 e (if swapsNeeded then BlobString_endian_swap m currentString else m)
               currentString) + sizeof_length
          + unat (load_u16 e (if swapsNeeded then BlobString_endian_swap m currentString else m)
               currentString AND 1)).
           mf ! k = (if swapsNeeded then BlobString_endian_swap m currentString else m) ! k)
      \<and> (\<not> swapsNeeded \<longrightarrow> mf = (if swapsNeeded then BlobString_endian_swap m currentString else m))"
      by (rule "1.IH" [OF True b refl refl refl refl r])
    then show ?thesis
      by (auto simp: BlobString_endian_swap_nth_out)
  qed
qed

lemma BlobField_endian_swap_nth_out:
  "k < p \<or> p + 12 \<le> k \<Longrightarrow> BlobField_endian_swap m p ! k = m ! k"
  by (auto simp: BlobField_endian_swap_def swap_u32_nth_out)

lemma BlobStruct_endian_swap_nth_out:
  "k < p \<or> p + 20 \<le> k \<Longrightarrow> BlobStruct_endian_swap m p ! k = m ! k"
  by (auto simp: BlobStruct_endian_swap_def swap_u32_nth_out)

lemma BlobConstant_endian_swap_nth_out:
  "k < p \<or> p + 12 \<le> k \<Longrightarrow> BlobConstant_endian_swap m p ! k = m ! k"
  by (auto simp: BlobConstant_endian_swap_def swap_u32_nth_out swap_value_bytes_nth_out)

lemma decode_field_memory:
  assumes "decode_field swapsNeeded e stringDataStart m p = Inr (f, m')"
  shows "m' = (if swapsNeeded then BlobField_endian_swap m p else m)"
  using assms
  by (auto simp: decode_field_def Let_def split: if_splits sum.splits)

lemma decode_constant_memory:
  assumes "decode_constant swapsNeeded e stringDataStart m p = Inr (c, m')"
  shows "m' = (if swapsNeeded then BlobConstant_endian_swap m p else m)"
  using assms
  by (auto simp: decode_constant_def Let_def split: if_splits sum.splits)

lemma decode_field_frame:
  assumes "decode_field swapsNeeded e stringDataStart m p = Inr (f, m')"
  shows "(\<forall>k. k < p \<or> p + sizeof_BlobField \<le> k \<longrightarrow> m' ! k = m ! k) \<and> (\<not> swapsNeeded \<longrightarrow> m' = m)"
  using decode_field_memory [OF assms]
  by (simp add: BlobField_endian_swap_nth_out sizeof_BlobField_def)

lemma decode_constant_frame:
  assumes "decode_constant swapsNeeded e stringDataStart m p = Inr (c, m')"
  shows "(\<forall>k. k < p \<or> p + sizeof_BlobConstant \<le> k \<longrightarrow> m' ! k = m ! k) \<and> (\<not> swapsNeeded \<longrightarrow> m' = m)"
  using decode_constant_memory [OF assms]
  by (simp add: BlobConstant_endian_swap_nth_out sizeof_BlobConstant_def)

lemma read_fields_step:
  assumes "fieldCount \<le> BlobStruct_fieldCount e m blobStruct"
    and "read_fields swapsNeeded e stringDataStart blobStruct m currentStruct fieldCount = Inr (fs, cur, mf)"
  obtains field m' fs' where
    "decode_field swapsNeeded e stringDataStart m currentStruct = Inr (field, m')"
    "read_fields swapsNeeded e stringDataStart blobStruct m'
       (currentStruct + sizeof_BlobField) (fieldCount + 1) = Inr (fs', cur, mf)"
    "fs = field # fs'"
  using assms
  by (subst (asm) read_fields.simps) (auto split: sum.splits)

lemma read_fields_done:
  "\<not> fieldCount \<le> BlobStruct_fieldCount e m blobStruct \<Longrightarrow>
   read_fields swapsNeeded e stringDataStart blobStruct m currentStruct fieldCount
     = Inr ([], currentStruct, m)"
  by (subst read_fields.simps) simp

lemma read_constants_step:
  assumes "constCount \<le> BlobStruct_constCount e m blobStruct"
    and "read_constants swapsNeeded e stringDataStart blobStruct m currentStruct constCount = Inr (cs, cur, mf)"
  obtains c m' cs' where
    "decode_constant swapsNeeded e stringDataStart m currentStruct = Inr (c, m')"
    "read_constants swapsNeeded e stringDataStart blobStruct m'
       (currentStruct + sizeof_BlobConstant) (constCount + 1) = Inr (cs', cur, mf)"
    "cs = c # cs'"
  using assms
  by (subst (asm) read_constants.simps) (auto split: sum.splits)

lemma read_constants_done:
  "\<not> constCount \<le> BlobStruct_constCount e m blobStruct \<Longrightarrow>
   read_constants swapsNeeded e stringDataStart blobStruct m currentStruct constCount
     = Inr ([], currentStruct, m)"
  by (subst read_constants.simps) simp

lemma read_fields_frame:
  "read_fields swapsNeeded e stringDataStart blobStruct m currentStruct fieldCount = Inr (fs, cur, mf)
   \<Longrightarrow> (\<forall>k<currentStruct. mf ! k = m ! k) \<and> (\<not> swapsNeeded \<longrightarrow> mf = m)"
proof (induction swapsNeeded e stringDataStart blobStruct m currentStruct fieldCount
    arbitrary: fs cur mf rule: read_fields.induct)
  case (1 swapsNeeded e stringDataStart blobStruct m currentStruct fieldCount)
  show ?case
  proof (cases "fieldCount \<le> BlobStruct_fieldCount e m blobStruct")
    case False
    with "1.prems" show ?thesis
      by (simp add: read_fields_done)
  next
    case True
    from True "1.prems" obtain field m' fs' where
      d: "decode_field swapsNeeded e stringDataStart m currentStruct = Inr (field, m')" and
      r: "read_fields swapsNeeded e stringDataStart blobStruct m'
            (currentStruct + sizeof_BlobField) (fieldCount + 1) = Inr (fs', cur, mf)"
      by (rule read_fields_step)
    have "(\<forall>k<currentStruct + sizeof_BlobField. mf ! k = m' ! k) \<and> (\<not> swapsNeeded \<longrightarrow> mf = m')"
      by (rule "1.IH" [OF True d refl r])
    with decode_field_frame [OF d] show ?thesis
      by auto
  qed
qed

lemma read_constants_frame:
  "read_constants swapsNeeded e stringDataStart blobStruct m currentStruct constCount = Inr (cs, cur, mf)
   \<Longrightarrow> (\<forall>k<currentStruct. mf ! k = m ! k) \<and> (\<not> swapsNeeded \<longrightarrow> mf = m)"
proof (induction swapsNeeded e stringDataStart blobStruct m currentStruct constCount
    arbitrary: cs cur mf rule: read_constants.induct)
  case (1 swapsNeeded e stringDataStart blobStruct m currentStruct constCount)
  show ?case
  proof (cases "constCount \<le> BlobStruct_constCount e m blobStruct")
    case False
    with "1.prems" show ?thesis
      by (simp add: read_constants_done)
  next
    case True
    from True "1.prems" obtain c m' cs' where
      d: "decode_constant swapsNeeded e stringDataStart m currentStruct = Inr (c, m')" and
      r: "read_constants swapsNeeded e stringDataStart blobStruct m'
            (currentStruct + sizeof_BlobConstant) (constCount + 1) = Inr (cs', cur, mf)"
      by (rule read_constants_step)
    have "(\<forall>k<currentStruct + sizeof_BlobConstant. mf ! k = m' ! k) \<and> (\<not> swapsNeeded \<longrightarrow> mf = m')"
      by (rule "1.IH" [OF True d refl r])
    with decode_constant_frame [OF d] show ?thesis
      by auto
  qed
qed

lemma read_struct_parts:
  assumes "read_struct swapsNeeded e stringDataStart m currentStruct = Inr (s, cur, mf)"
  obtains builtStruct fs cur2 m2 cs where
    "currentStruct + sizeof_BlobStruct \<le> length m"
    "decode_struct_head e stringDataStart
       (if swapsNeeded then BlobStruct_endian_swap m currentStruct else m) currentStruct = Inr builtStruct"
    "read_fields swapsNeeded e stringDataStart currentStruct
       (if swapsNeeded then BlobStruct_endian_swap m currentStruct else m)
       (currentStruct + sizeof_BlobStruct) 1 = Inr (fs, cur2, m2)"
    "read_constants swapsNeeded e stringDataStart currentStruct m2 cur2 1 = Inr (cs, cur, mf)"
    "s = builtStruct\<lparr>fields_v := fs, constants_v := cs\<rparr>"
  using assms
  by (auto simp: read_struct_def Let_def split: if_splits sum.splits)

lemma read_struct_frame:
  assumes "read_struct swapsNeeded e stringDataStart m currentStruct = Inr (s, cur, mf)"
  shows "(\<forall>k<currentStruct. mf ! k = m ! k) \<and> (\<not> swapsNeeded \<longrightarrow> mf = m)"
proof -
  from assms obtain builtStruct fs cur2 m2 cs where
    f: "read_fields swapsNeeded e stringDataStart currentStruct
       (if swapsNeeded then BlobStruct_endian_swap m currentStruct else m)
       (currentStruct + sizeof_BlobStruct) 1 = Inr (fs, cur2, m2)" and
    c: "read_constants swapsNeeded e stringDataStart currentStruct m2 cur2 1 = Inr (cs, cur, mf)"
    by (rule read_struct_parts)
  from read_fields_Inr [OF f] have le: "currentStruct \<le> cur2"
    by simp
  from read_fields_frame [OF f] read_constants_frame [OF c] le show ?thesis
    by (auto simp: BlobStruct_endian_swap_nth_out)
qed

lemma read_structs_step:
  assumes "structCount \<le> structureCount_hdr"
    and "read_structs swapsNeeded e stringDataStart structureCount_hdr m currentStruct structCount
          = Inr (ss, curf, mf)"
  obtains s cur m' ss' where
    "read_struct swapsNeeded e stringDataStart m currentStruct = Inr (s, cur, m')"
    "read_structs swapsNeeded e stringDataStart structureCount_hdr m' cur (structCount + 1)
       = Inr (ss', curf, mf)"
    "ss = s # ss'"
  using assms
  by (subst (asm) read_structs.simps) (auto split: sum.splits)

lemma read_structs_done:
  "\<not> structCount \<le> structureCount_hdr \<Longrightarrow>
   read_structs swapsNeeded e stringDataStart structureCount_hdr m currentStruct structCount
     = Inr ([], currentStruct, m)"
  by (subst read_structs.simps) simp

lemma read_structs_frame:
  "read_structs swapsNeeded e stringDataStart structureCount_hdr m currentStruct structCount
     = Inr (ss, curf, mf)
   \<Longrightarrow> length mf = length m \<and> (\<forall>k<currentStruct. mf ! k = m ! k) \<and> (\<not> swapsNeeded \<longrightarrow> mf = m)"
proof (induction swapsNeeded e stringDataStart structureCount_hdr m currentStruct structCount
    arbitrary: ss curf mf rule: read_structs.induct)
  case (1 swapsNeeded e stringDataStart structureCount_hdr m currentStruct structCount)
  show ?case
  proof (cases "structCount \<le> structureCount_hdr")
    case False
    with "1.prems" show ?thesis
      by (simp add: read_structs_done)
  next
    case True
    from True "1.prems" obtain s cur m' ss' where
      d: "read_struct swapsNeeded e stringDataStart m currentStruct = Inr (s, cur, m')" and
      r: "read_structs swapsNeeded e stringDataStart structureCount_hdr m' cur (structCount + 1)
            = Inr (ss', curf, mf)"
      by (rule read_structs_step)
    have "length mf = length m' \<and> (\<forall>k<cur. mf ! k = m' ! k) \<and> (\<not> swapsNeeded \<longrightarrow> mf = m')"
      by (rule "1.IH" [OF True d refl refl r])
    with read_struct_frame [OF d] read_struct_Inr [OF d] show ?thesis
      by auto
  qed
qed

section \<open>Properties of the whole program\<close>

text \<open>
  \<^verbatim>\<open>blobLength\<close> of line 237: the size of the header plus the two section sizes of the
  decoded header, which is the number of bytes \<^verbatim>\<open>main\<close> asks \<^verbatim>\<open>fread\<close> for.
\<close>

definition blobLength_of :: "endian \<Rightarrow> byte list \<Rightarrow> nat" where
  "blobLength_of e file =
     (let hdr = snd (decode_header e (take sizeof_BlobHeaderV1 file))
      in sizeof_BlobHeaderV1 + unat (structDataSize hdr) + unat (stringTableDataSize hdr))"

lemma blobLength_of_ge: "sizeof_BlobHeaderV1 \<le> blobLength_of e file"
  by (simp add: blobLength_of_def Let_def)

lemma blobLength_of_take:
  "sizeof_BlobHeaderV1 \<le> n \<Longrightarrow> blobLength_of e (take n file) = blobLength_of e file"
  by (simp add: blobLength_of_def min_def)

lemma main_unfold:
  "main e file =
     (if length file < sizeof_BlobHeaderV1 then Inl HeaderReadError
      else if length file < blobLength_of e file then Inl BlobReadError
      else
        let swaps = fst (decode_header e (take sizeof_BlobHeaderV1 file));
            hdr = snd (decode_header e (take sizeof_BlobHeaderV1 file));
            stringDataStart = sizeof_BlobHeaderV1 + unat (structDataSize hdr)
        in (case read_strings swaps e stringDataStart (blobLength_of e file)
                  (take (blobLength_of e file) file) stringDataStart 1 of
              Inl err \<Rightarrow> Inl err
            | Inr (entries, m1) \<Rightarrow>
                (case read_structs swaps e stringDataStart (structureCount hdr) m1
                        sizeof_BlobHeaderV1 1 of
                   Inl err \<Rightarrow> Inl err
                 | Inr (built, cur, m2) \<Rightarrow>
                     (case sort_structs m2 built of
                        Inl err \<Rightarrow> Inl err
                      | Inr sortedStructs \<Rightarrow>
                          Inr \<lparr> out_blobHdrV1 = hdr, out_swapsNeeded = swaps,
                                out_strings = entries, out_decoded = built,
                                out_structs = sortedStructs, out_blobBuffer = m2 \<rparr>))))"
  by (cases "decode_header e (take sizeof_BlobHeaderV1 file)")
     (auto simp: main_def blobLength_of_def Let_def min_def)

lemma main_short_header:
  "length file < sizeof_BlobHeaderV1 \<Longrightarrow> main e file = Inl HeaderReadError"
  by (simp add: main_unfold)

lemma main_short_blob:
  "sizeof_BlobHeaderV1 \<le> length file \<Longrightarrow> length file < blobLength_of e file
   \<Longrightarrow> main e file = Inl BlobReadError"
  by (simp add: main_unfold)

lemma main_take:
  assumes "blobLength_of e file \<le> length file"
  shows "main e (take (blobLength_of e file) file) = main e file"
proof -
  have ge: "sizeof_BlobHeaderV1 \<le> blobLength_of e file"
    by (rule blobLength_of_ge)
  then have t: "take sizeof_BlobHeaderV1 (take (blobLength_of e file) file) = take sizeof_BlobHeaderV1 file"
    by (simp add: min_def)
  have b: "blobLength_of e (take (blobLength_of e file) file) = blobLength_of e file"
    using ge by (rule blobLength_of_take)
  show ?thesis
    using assms ge by (simp add: main_unfold [of e "file"] main_unfold [of e "take (blobLength_of e file) file"] b t)
qed

lemma main_Inr:
  assumes "main e file = Inr r"
  obtains entries m1 built cur where
    "blobLength_of e file \<le> length file"
    "read_strings (out_swapsNeeded r) e
       (sizeof_BlobHeaderV1 + unat (structDataSize (out_blobHdrV1 r))) (blobLength_of e file)
       (take (blobLength_of e file) file)
       (sizeof_BlobHeaderV1 + unat (structDataSize (out_blobHdrV1 r))) 1 = Inr (entries, m1)"
    "read_structs (out_swapsNeeded r) e
       (sizeof_BlobHeaderV1 + unat (structDataSize (out_blobHdrV1 r)))
       (structureCount (out_blobHdrV1 r)) m1 sizeof_BlobHeaderV1 1 = Inr (built, cur, out_blobBuffer r)"
    "sort_structs (out_blobBuffer r) built = Inr (out_structs r)"
    "out_strings r = entries" "out_decoded r = built"
    "decode_header e (take sizeof_BlobHeaderV1 file) = (out_swapsNeeded r, out_blobHdrV1 r)"
  using assms
  unfolding main_unfold
  by (auto simp: Let_def split: if_splits sum.splits)

lemma BlobString_length_Inl:
  "BlobString_length e m p = Inl err \<Longrightarrow> err = InvalidAccess"
  by (simp add: BlobString_length_def split: if_splits)

lemma read_strings_Inl:
  "read_strings swapsNeeded e stringDataStart stringDataEnd m currentString num = Inl err
   \<Longrightarrow> err = InvalidAccess"
proof (induction swapsNeeded e stringDataStart stringDataEnd m currentString num
    rule: read_strings.induct)
  case (1 swapsNeeded e stringDataStart stringDataEnd m currentString num)
  from "1.prems" show ?case
    by (subst (asm) read_strings.simps)
       (auto simp: Let_def split: if_splits sum.splits dest: "1.IH" [OF _ _ refl refl refl refl])
qed

lemma decode_field_Inl:
  "decode_field swapsNeeded e stringDataStart m p = Inl err \<Longrightarrow> err = InvalidAccess"
  by (auto simp: decode_field_def Let_def split: if_splits sum.splits dest: BlobString_length_Inl)

lemma decode_constant_Inl:
  "decode_constant swapsNeeded e stringDataStart m p = Inl err \<Longrightarrow> err = InvalidAccess"
  by (auto simp: decode_constant_def Let_def split: if_splits sum.splits dest: BlobString_length_Inl)

lemma decode_struct_head_Inl:
  "decode_struct_head e stringDataStart m p = Inl err \<Longrightarrow> err = InvalidAccess"
  by (auto simp: decode_struct_head_def Let_def split: if_splits sum.splits dest: BlobString_length_Inl)

lemma read_fields_Inl:
  "read_fields swapsNeeded e stringDataStart blobStruct m currentStruct fieldCount = Inl err
   \<Longrightarrow> err = InvalidAccess"
proof (induction swapsNeeded e stringDataStart blobStruct m currentStruct fieldCount
    rule: read_fields.induct)
  case (1 swapsNeeded e stringDataStart blobStruct m currentStruct fieldCount)
  from "1.prems" show ?case
    by (subst (asm) read_fields.simps)
       (auto split: if_splits sum.splits dest: "1.IH" [OF _ _ refl] decode_field_Inl)
qed

lemma read_constants_Inl:
  "read_constants swapsNeeded e stringDataStart blobStruct m currentStruct constCount = Inl err
   \<Longrightarrow> err = InvalidAccess"
proof (induction swapsNeeded e stringDataStart blobStruct m currentStruct constCount
    rule: read_constants.induct)
  case (1 swapsNeeded e stringDataStart blobStruct m currentStruct constCount)
  from "1.prems" show ?case
    by (subst (asm) read_constants.simps)
       (auto split: if_splits sum.splits dest: "1.IH" [OF _ _ refl] decode_constant_Inl)
qed

lemma read_struct_Inl:
  "read_struct swapsNeeded e stringDataStart m currentStruct = Inl err \<Longrightarrow> err = InvalidAccess"
  by (auto simp: read_struct_def Let_def split: if_splits sum.splits
      dest: decode_struct_head_Inl read_fields_Inl read_constants_Inl)

lemma read_structs_Inl:
  "read_structs swapsNeeded e stringDataStart structureCount_hdr m currentStruct structCount = Inl err
   \<Longrightarrow> err = InvalidAccess"
proof (induction swapsNeeded e stringDataStart structureCount_hdr m currentStruct structCount
    rule: read_structs.induct)
  case (1 swapsNeeded e stringDataStart structureCount_hdr m currentStruct structCount)
  from "1.prems" show ?case
    by (subst (asm) read_structs.simps)
       (auto split: if_splits sum.splits dest: "1.IH" [OF _ _ refl refl] read_struct_Inl)
qed

lemma strcmp_Inl: "strcmp m s1 s2 = Inl err \<Longrightarrow> err = InvalidAccess"
proof (induction m s1 s2 rule: strcmp.induct)
  case (1 m s1 s2)
  show ?case
  proof (cases "s1 < length m \<and> s2 < length m \<and> m ! s1 = m ! s2 \<and> m ! s1 \<noteq> 0")
    case True
    with "1.prems" have "strcmp m (s1 + 1) (s2 + 1) = Inl err"
      by (subst (asm) strcmp.simps) (auto split: if_splits)
    with "1.IH" True show ?thesis
      by blast
  next
    case False
    with "1.prems" show ?thesis
      by (subst (asm) strcmp.simps) (auto split: if_splits)
  qed
qed

lemma compareStructs_Inl: "compareStructs m a b = Inl err \<Longrightarrow> err = InvalidAccess"
  by (auto simp: compareStructs_def split: sum.splits dest: strcmp_Inl)

lemma insert_struct_Inl: "insert_struct m x ys = Inl err \<Longrightarrow> err = InvalidAccess"
  by (induction ys arbitrary: err)
     (auto split: sum.splits bool.splits dest: compareStructs_Inl)

lemma insertion_loop_Inl: "insertion_loop m ys xs = Inl err \<Longrightarrow> err = InvalidAccess"
  by (induction xs arbitrary: ys) (auto split: sum.splits dest: insert_struct_Inl)

lemma sort_structs_Inl: "sort_structs m xs = Inl err \<Longrightarrow> err = InvalidAccess"
  by (simp add: sort_structs_def insertion_loop_Inl)

lemma main_Inl_later:
  assumes "blobLength_of e file \<le> length file" and "main e file = Inl err"
  shows "err = InvalidAccess"
proof -
  define swaps where "swaps = fst (decode_header e (take sizeof_BlobHeaderV1 file))"
  define hdr where "hdr = snd (decode_header e (take sizeof_BlobHeaderV1 file))"
  define sds where "sds = sizeof_BlobHeaderV1 + unat (structDataSize hdr)"
  define buf where "buf = take (blobLength_of e file) file"
  have ge: "sizeof_BlobHeaderV1 \<le> blobLength_of e file"
    by (rule blobLength_of_ge)
  show ?thesis
  proof (cases "read_strings swaps e sds (blobLength_of e file) buf sds 1")
    case (Inl err1)
    with assms ge have "err = err1"
      by (simp add: main_unfold Let_def swaps_def hdr_def sds_def buf_def)
    with Inl show ?thesis
      by (simp add: read_strings_Inl)
  next
    case s: (Inr p1)
    obtain entries m1 where p1: "p1 = (entries, m1)"
      by (cases p1)
    show ?thesis
    proof (cases "read_structs swaps e sds (structureCount hdr) m1 sizeof_BlobHeaderV1 1")
      case (Inl err2)
      with assms ge s p1 have "err = err2"
        by (simp add: main_unfold Let_def swaps_def hdr_def sds_def buf_def)
      with Inl show ?thesis
        by (simp add: read_structs_Inl)
    next
      case t: (Inr p2)
      obtain built cur m2 where p2: "p2 = (built, cur, m2)"
        by (cases p2)
      show ?thesis
      proof (cases "sort_structs m2 built")
        case (Inl err3)
        with assms ge s p1 t p2 have "err = err3"
          by (simp add: main_unfold Let_def swaps_def hdr_def sds_def buf_def)
        with Inl show ?thesis
          by (simp add: sort_structs_Inl)
      next
        case (Inr sortedStructs)
        with assms ge s p1 t p2 show ?thesis
          by (simp add: main_unfold Let_def swaps_def hdr_def sds_def buf_def)
      qed
    qed
  qed
qed

text \<open>Files used as examples: a header that declares two empty sections, and one that
  declares four bytes of strings in a file that holds three.\<close>

definition empty_blob :: "byte list" where
  "empty_blob =
     [0x01, 0x00, 0x00, 0x00, 0x01, 0x08, 0x01, 0x00, 0x00, 0x00, 0x00, 0x00,
      0x00, 0x00, 0x00, 0x00, 0x00, 0x00, 0x00, 0x00]"

definition truncated_blob :: "byte list" where
  "truncated_blob =
     [0x01, 0x00, 0x00, 0x00, 0x01, 0x08, 0x01, 0x00, 0x00, 0x00, 0x00, 0x00,
      0x04, 0x00, 0x00, 0x00, 0x00, 0x00, 0x00, 0x00, 0x02, 0x00, 0x41]"

text \<open>
  C4, as the code has it. A file shorter than the header is a header read error; a file
  that holds the header but fewer bytes than header size + structDataSize +
  stringTableDataSize is a blob read error; a file that holds more is decoded exactly as
  its first header size + structDataSize + stringTableDataSize bytes are, and neither read
  error is reported for it.
\<close>

theorem file_length_check:
  "(length file < sizeof_BlobHeaderV1 \<longrightarrow> main e file = Inl HeaderReadError)
   \<and> (sizeof_BlobHeaderV1 \<le> length file \<and> length file < blobLength_of e file \<longrightarrow>
        main e file = Inl BlobReadError)
   \<and> (blobLength_of e file \<le> length file \<longrightarrow>
        main e file = main e (take (blobLength_of e file) file)
        \<and> main e file \<noteq> Inl HeaderReadError \<and> main e file \<noteq> Inl BlobReadError)"
proof (intro conjI impI)
  assume "blobLength_of e file \<le> length file"
  then show "main e file = main e (take (blobLength_of e file) file)"
    by (simp add: main_take)
next
  assume a: "blobLength_of e file \<le> length file"
  show "main e file \<noteq> Inl HeaderReadError"
    using main_Inl_later [OF a] by fastforce
  show "main e file \<noteq> Inl BlobReadError"
    using main_Inl_later [OF a] by fastforce
qed (simp_all add: main_short_header main_short_blob)

theorem file_length_check_witness:
  "length (take 19 empty_blob) < sizeof_BlobHeaderV1
   \<and> main LittleEndian (take 19 empty_blob) = Inl HeaderReadError
   \<and> sizeof_BlobHeaderV1 \<le> length truncated_blob
   \<and> length truncated_blob < blobLength_of LittleEndian truncated_blob
   \<and> main LittleEndian truncated_blob = Inl BlobReadError
   \<and> blobLength_of LittleEndian (empty_blob @ [0xAA]) \<le> length (empty_blob @ [0xAA])
   \<and> main LittleEndian (empty_blob @ [0xAA])
       = main LittleEndian (take (blobLength_of LittleEndian (empty_blob @ [0xAA])) (empty_blob @ [0xAA]))"
proof -
  have h1: "length (take 19 empty_blob) < sizeof_BlobHeaderV1"
    by code_simp
  have h2: "sizeof_BlobHeaderV1 \<le> length truncated_blob
      \<and> length truncated_blob < blobLength_of LittleEndian truncated_blob"
    by code_simp
  have h3: "blobLength_of LittleEndian (empty_blob @ [0xAA]) \<le> length (empty_blob @ [0xAA])"
    by code_simp
  from h1 h2 h3
    file_length_check [of "take 19 empty_blob" LittleEndian]
    file_length_check [of truncated_blob LittleEndian]
    file_length_check [of "empty_blob @ [0xAA]" LittleEndian]
  show ?thesis
    by blast
qed

text \<open>
  The claim as stated fails: a file one byte longer than its header declares is decoded
  without any error.
\<close>

theorem file_longer_than_declared_counterexample:
  "length (empty_blob @ [0xAA]) \<noteq> blobLength_of LittleEndian (empty_blob @ [0xAA])
   \<and> main LittleEndian (empty_blob @ [0xAA])
       = Inr \<lparr> out_blobHdrV1 =
                 \<lparr> coreVersion = 1, sizeofBool = 1, sizeofUDATA = 8, bitfieldFormat = 1,
                   padding = 0, structDataSize = 0, stringTableDataSize = 0,
                   structureCount = 0 \<rparr>,
               out_swapsNeeded = False, out_strings = [], out_decoded = [], out_structs = [],
               out_blobBuffer = empty_blob \<rparr>"
  by code_simp

text \<open>
  A blob written little-endian, with two structures: the first has no superclass, two
  fields and one constant, the second has the first as its superclass and neither fields
  nor constants. Its strings are \<open>A\<close>, \<open>Bc\<close>, \<open>x\<close> and \<open>U8\<close>.
\<close>

definition example_blob :: "byte list" where
  "example_blob =
     [0x01, 0x00, 0x00, 0x00, 0x01, 0x08, 0x01, 0x00, 0x4C, 0x00, 0x00, 0x00, 0x10, 0x00, 0x00, 
     0x00, 0x02, 0x00, 0x00, 0x00, 0x00, 0x00, 0x00, 0x00, 0xFF, 0xFF, 0xFF, 0xFF, 0x10, 0x00, 0x00, 
     0x00, 0x02, 0x00, 0x00, 0x00, 0x01, 0x00, 0x00, 0x00, 0x08, 0x00, 0x00, 0x00, 0x0C, 0x00, 0x00, 
     0x00, 0x00, 0x00, 0x00, 0x00, 0x08, 0x00, 0x00, 0x00, 0x0C, 0x00, 0x00, 0x00, 0x08, 0x00, 0x00, 
     0x00, 0x08, 0x00, 0x00, 0x00, 0x02, 0x00, 0x00, 0x00, 0x01, 0x00, 0x00, 0x00, 0x04, 0x00, 0x00, 
     0x00, 0x00, 0x00, 0x00, 0x00, 0x10, 0x00, 0x00, 0x00, 0x00, 0x00, 0x00, 0x00, 0x00, 0x00, 0x00, 
     0x00, 0x01, 0x00, 0x41, 0x00, 0x02, 0x00, 0x42, 0x63, 0x01, 0x00, 0x78, 0x00, 0x02, 0x00, 0x55, 
     0x38]"

section \<open>Properties of the structure walker: the superclass\<close>

lemma cat_u32_bytes:
  "ucast (drop_bit 24 (cat_u32 a b c d)) = a" "ucast (drop_bit 16 (cat_u32 a b c d)) = b"
  "ucast (drop_bit 8 (cat_u32 a b c d)) = c" "ucast (cat_u32 a b c d) = d"
  unfolding cat_u32_def
  by (rule bit_word_eqI; auto simp: bit_simps dest: bit_imp_le_length)+

lemma cat_u32_all_ones:
  assumes "cat_u32 a b c d = 0xFFFFFFFF"
  shows "a = 0xFF \<and> b = 0xFF \<and> c = 0xFF \<and> d = 0xFF"
proof -
  have "a = ucast (drop_bit 24 (cat_u32 a b c d))" "b = ucast (drop_bit 16 (cat_u32 a b c d))"
    "c = ucast (drop_bit 8 (cat_u32 a b c d))" "d = ucast (cat_u32 a b c d)"
    by (simp_all add: cat_u32_bytes)
  then show ?thesis
    unfolding assms by simp
qed

lemma load_u32_all_ones:
  assumes "load_u32 e' m q = 0xFFFFFFFF"
  shows "load_u32 e m q = 0xFFFFFFFF"
proof -
  from assms have "m ! q = 0xFF \<and> m ! (q + 1) = 0xFF \<and> m ! (q + 2) = 0xFF \<and> m ! (q + 3) = 0xFF"
    by (cases e') (auto simp: load_u32_def dest: cat_u32_all_ones)
  then show ?thesis
    by (cases e) (simp_all add: load_u32_def cat_u32_def)
qed

lemma BlobStruct_endian_swap_fields:
  assumes "p + 20 \<le> length m"
  shows "BlobStruct_nameOffset e (BlobStruct_endian_swap m p) p = BlobStruct_nameOffset (opposite e) m p"
    and "BlobStruct_superName e (BlobStruct_endian_swap m p) p = BlobStruct_superName (opposite e) m p"
    and "BlobStruct_sizeOf e (BlobStruct_endian_swap m p) p = BlobStruct_sizeOf (opposite e) m p"
    and "BlobStruct_fieldCount e (BlobStruct_endian_swap m p) p = BlobStruct_fieldCount (opposite e) m p"
    and "BlobStruct_constCount e (BlobStruct_endian_swap m p) p = BlobStruct_constCount (opposite e) m p"
  using assms
  by (simp_all add: BlobStruct_endian_swap_def BlobStruct_nameOffset_def BlobStruct_superName_def
      BlobStruct_sizeOf_def BlobStruct_fieldCount_def BlobStruct_constCount_def
      load_u32_swap_u32 load_u32_swap_u32_other)

lemma minus_one_u32: "(- 1 :: 32 word) = 0xFFFFFFFF"
  by simp

lemma sentinel_lookup_invalid:
  assumes "length m \<le> 0xFFFFFFFF"
  shows "BlobString_length e m (BLOBSTRING_AT stringDataStart 0xFFFFFFFF) = Inl InvalidAccess"
  using assms
  by (simp add: BlobString_length_def BLOBSTRING_AT_def sizeof_length_def)

text \<open>
  C5. When the \<^verbatim>\<open>superName\<close> of a structure record is the all-ones value, the structure is
  built with a null superclass name of length 0 and the outcome depends on the lookup of
  the name alone: the reference is never looked up (a lookup there would be an access
  outside any buffer of less than 4 GiB). For any other value the reference is resolved
  through the string table, like the name. All-ones reads the same in both byte orders,
  so this holds for the value as stored on disk, whether or not the record is swapped.
\<close>

theorem absent_superclass_sentinel:
  "(BlobStruct_superName e m p = 0xFFFFFFFF \<longrightarrow>
      decode_struct_head e stringDataStart m p =
        (case BlobString_length e m (BLOBSTRING_AT stringDataStart (BlobStruct_nameOffset e m p)) of
           Inl err \<Rightarrow> Inl err
         | Inr nameLen \<Rightarrow>
             Inr \<lparr> name = BlobString_data (BLOBSTRING_AT stringDataStart (BlobStruct_nameOffset e m p)),
                   nameLength = ucast nameLen, superName = None, superNameLength = 0,
                   size_of = BlobStruct_sizeOf e m p, fields_v = [], constants_v = [] \<rparr>)
      \<and> (length m \<le> 0xFFFFFFFF \<longrightarrow>
           BlobString_length e m (BLOBSTRING_AT stringDataStart (BlobStruct_superName e m p))
             = Inl InvalidAccess))
   \<and> (BlobStruct_superName e m p \<noteq> 0xFFFFFFFF \<longrightarrow>
      decode_struct_head e stringDataStart m p =
        (case BlobString_length e m (BLOBSTRING_AT stringDataStart (BlobStruct_nameOffset e m p)) of
           Inl err \<Rightarrow> Inl err
         | Inr nameLen \<Rightarrow>
             (case BlobString_length e m
                     (BLOBSTRING_AT stringDataStart (BlobStruct_superName e m p)) of
                Inl err \<Rightarrow> Inl err
              | Inr superLen \<Rightarrow>
                  Inr \<lparr> name = BlobString_data
                           (BLOBSTRING_AT stringDataStart (BlobStruct_nameOffset e m p)),
                        nameLength = ucast nameLen,
                        superName = Some (BlobString_data
                           (BLOBSTRING_AT stringDataStart (BlobStruct_superName e m p))),
                        superNameLength = ucast superLen,
                        size_of = BlobStruct_sizeOf e m p, fields_v = [], constants_v = [] \<rparr>)))
   \<and> (load_u32 e' m (p + 4) = 0xFFFFFFFF \<longrightarrow>
        (\<forall>s cur mf. read_struct swapsNeeded e stringDataStart m p = Inr (s, cur, mf) \<longrightarrow>
           superName s = None \<and> superNameLength s = 0))"
proof (intro conjI impI allI)
  assume a: "BlobStruct_superName e m p = 0xFFFFFFFF"
  then show "decode_struct_head e stringDataStart m p =
        (case BlobString_length e m (BLOBSTRING_AT stringDataStart (BlobStruct_nameOffset e m p)) of
           Inl err \<Rightarrow> Inl err
         | Inr nameLen \<Rightarrow>
             Inr \<lparr> name = BlobString_data (BLOBSTRING_AT stringDataStart (BlobStruct_nameOffset e m p)),
                   nameLength = ucast nameLen, superName = None, superNameLength = 0,
                   size_of = BlobStruct_sizeOf e m p, fields_v = [], constants_v = [] \<rparr>)"
    by (simp add: decode_struct_head_def Let_def minus_one_u32 split: sum.splits)
  assume "length m \<le> 0xFFFFFFFF"
  with a sentinel_lookup_invalid [of m e stringDataStart]
  show "BlobString_length e m (BLOBSTRING_AT stringDataStart (BlobStruct_superName e m p))
             = Inl InvalidAccess"
    by simp
next
  assume "BlobStruct_superName e m p \<noteq> 0xFFFFFFFF"
  then show "decode_struct_head e stringDataStart m p =
        (case BlobString_length e m (BLOBSTRING_AT stringDataStart (BlobStruct_nameOffset e m p)) of
           Inl err \<Rightarrow> Inl err
         | Inr nameLen \<Rightarrow>
             (case BlobString_length e m
                     (BLOBSTRING_AT stringDataStart (BlobStruct_superName e m p)) of
                Inl err \<Rightarrow> Inl err
              | Inr superLen \<Rightarrow>
                  Inr \<lparr> name = BlobString_data
                           (BLOBSTRING_AT stringDataStart (BlobStruct_nameOffset e m p)),
                        nameLength = ucast nameLen,
                        superName = Some (BlobString_data
                           (BLOBSTRING_AT stringDataStart (BlobStruct_superName e m p))),
                        superNameLength = ucast superLen,
                        size_of = BlobStruct_sizeOf e m p, fields_v = [], constants_v = [] \<rparr>))"
    by (auto simp: decode_struct_head_def Let_def minus_one_u32 split: sum.splits)
next
  fix s cur mf
  assume raw: "load_u32 e' m (p + 4) = 0xFFFFFFFF"
    and r: "read_struct swapsNeeded e stringDataStart m p = Inr (s, cur, mf)"
  from r obtain builtStruct fs cs where
    len: "p + sizeof_BlobStruct \<le> length m" and
    h: "decode_struct_head e stringDataStart
       (if swapsNeeded then BlobStruct_endian_swap m p else m) p = Inr builtStruct" and
    s: "s = builtStruct\<lparr>fields_v := fs, constants_v := cs\<rparr>"
    by (rule read_struct_parts)
  from len have len20: "p + 20 \<le> length m"
    by (simp add: sizeof_BlobStruct_def)
  have "BlobStruct_superName e (if swapsNeeded then BlobStruct_endian_swap m p else m) p = 0xFFFFFFFF"
    using load_u32_all_ones [OF raw]
    by (simp add: BlobStruct_endian_swap_fields [OF len20]) (simp add: BlobStruct_superName_def)
  with h have "superName builtStruct = None \<and> superNameLength builtStruct = 0"
    by (auto simp: decode_struct_head_def Let_def minus_one_u32 split: sum.splits)
  with s show "superName s = None" and "superNameLength s = 0"
    by simp_all
qed

theorem absent_superclass_sentinel_witness:
  "BlobStruct_superName LittleEndian example_blob 20 = 0xFFFFFFFF
   \<and> length example_blob \<le> 0xFFFFFFFF
   \<and> decode_struct_head LittleEndian 96 example_blob 20
       = Inr \<lparr> name = 98, nameLength = 1, superName = None, superNameLength = 0,
               size_of = 16, fields_v = [], constants_v = [] \<rparr>
   \<and> BlobString_length LittleEndian example_blob
         (BLOBSTRING_AT 96 (BlobStruct_superName LittleEndian example_blob 20)) = Inl InvalidAccess
   \<and> BlobStruct_superName LittleEndian example_blob 76 \<noteq> 0xFFFFFFFF
   \<and> decode_struct_head LittleEndian 96 example_blob 76
       = Inr \<lparr> name = 102, nameLength = 2, superName = Some 98, superNameLength = 1,
               size_of = 16, fields_v = [], constants_v = [] \<rparr>
   \<and> load_u32 LittleEndian example_blob (20 + 4) = 0xFFFFFFFF
   \<and> (case read_struct False LittleEndian 96 example_blob 20 of
         Inl err \<Rightarrow> False
       | Inr (s, cur, mf) \<Rightarrow> superName s = None \<and> superNameLength s = 0)"
proof -
  have h1: "BlobStruct_superName LittleEndian example_blob 20 = 0xFFFFFFFF"
    by code_simp
  have h2: "length example_blob \<le> 0xFFFFFFFF"
    by (simp add: example_blob_def)
  have h3: "BlobStruct_superName LittleEndian example_blob 76 \<noteq> 0xFFFFFFFF"
    by code_simp
  have h4: "load_u32 LittleEndian example_blob (20 + 4) = 0xFFFFFFFF"
    by code_simp
  have n1: "BlobString_length LittleEndian example_blob
        (BLOBSTRING_AT 96 (BlobStruct_nameOffset LittleEndian example_blob 20)) = Inr 1"
    by code_simp
  have d1: "BlobString_data (BLOBSTRING_AT 96 (BlobStruct_nameOffset LittleEndian example_blob 20)) = 98"
    by code_simp
  have z1: "BlobStruct_sizeOf LittleEndian example_blob 20 = 16"
    by code_simp
  have n2: "BlobString_length LittleEndian example_blob
        (BLOBSTRING_AT 96 (BlobStruct_nameOffset LittleEndian example_blob 76)) = Inr 2"
    by code_simp
  have d2: "BlobString_data (BLOBSTRING_AT 96 (BlobStruct_nameOffset LittleEndian example_blob 76)) = 102"
    by code_simp
  have z2: "BlobStruct_sizeOf LittleEndian example_blob 76 = 16"
    by code_simp
  have s2: "BlobString_length LittleEndian example_blob
        (BLOBSTRING_AT 96 (BlobStruct_superName LittleEndian example_blob 76)) = Inr 1"
    by code_simp
  have e2: "BlobString_data (BLOBSTRING_AT 96 (BlobStruct_superName LittleEndian example_blob 76)) = 98"
    by code_simp
  have ok: "case read_struct False LittleEndian 96 example_blob 20 of
       Inl err \<Rightarrow> False | Inr r \<Rightarrow> True"
    by code_simp
  note t1 = absent_superclass_sentinel [of LittleEndian example_blob 20 96 LittleEndian False]
  note t2 = absent_superclass_sentinel [of LittleEndian example_blob 76 96 LittleEndian False]
  from t1 h1 h2 have c1: "decode_struct_head LittleEndian 96 example_blob 20
       = Inr \<lparr> name = 98, nameLength = 1, superName = None, superNameLength = 0,
               size_of = 16, fields_v = [], constants_v = [] \<rparr>"
    and c2: "BlobString_length LittleEndian example_blob
         (BLOBSTRING_AT 96 (BlobStruct_superName LittleEndian example_blob 20)) = Inl InvalidAccess"
    unfolding n1 d1 z1 by simp_all
  from t2 h3 have c3: "decode_struct_head LittleEndian 96 example_blob 76
       = Inr \<lparr> name = 102, nameLength = 2, superName = Some 98, superNameLength = 1,
               size_of = 16, fields_v = [], constants_v = [] \<rparr>"
    unfolding n2 d2 z2 s2 e2 by simp
  have c4: "case read_struct False LittleEndian 96 example_blob 20 of
         Inl err \<Rightarrow> False
       | Inr (s, cur, mf) \<Rightarrow> superName s = None \<and> superNameLength s = 0"
  proof (cases "read_struct False LittleEndian 96 example_blob 20")
    case (Inl err)
    with ok show ?thesis by simp
  next
    case (Inr r)
    obtain s cur mf where r: "r = (s, cur, mf)"
      by (cases r)
    from t1 h4 Inr r have "superName s = None \<and> superNameLength s = 0"
      by blast
    with Inr r show ?thesis by simp
  qed
  from h1 h2 h3 h4 c1 c2 c3 c4 show ?thesis
    by blast
qed

section \<open>Properties of the string enumeration\<close>

text \<open>
  What the claim says of the list of strings: every entry starts where the one before it
  ended, an entry of length \<open>len\<close> taking \<open>len + 2 + len mod 2\<close> bytes.
\<close>

fun chained :: "nat \<Rightarrow> StringEntry list \<Rightarrow> bool" where
  "chained off [] = True"
| "chained off (x # xs) =
     (stringOffset x = off
      \<and> chained (off + unat (stringLength x) + 2 + unat (stringLength x) mod 2) xs)"

fun walk_end :: "nat \<Rightarrow> StringEntry list \<Rightarrow> nat" where
  "walk_end off [] = off"
| "walk_end off (x # xs) =
     walk_end (stringOffset x + unat (stringLength x) + 2 + unat (stringLength x) mod 2) xs"

lemma unat_and_1: "unat ((w :: 16 word) AND 1) = unat w mod 2"
  by (metis and_one_eq unat_1 unsigned_and_eq)

lemma load_u16_cong:
  "m' ! p = m ! p \<Longrightarrow> m' ! (p + 1) = m ! (p + 1) \<Longrightarrow> load_u16 e m' p = load_u16 e m p"
  by (simp add: load_u16_def split: endian.splits)

lemma load_u32_cong:
  "(\<And>k. p \<le> k \<Longrightarrow> k < p + 4 \<Longrightarrow> m' ! k = m ! k) \<Longrightarrow> load_u32 e m' p = load_u32 e m p"
  by (simp add: load_u32_def split: endian.splits)

lemma read_strings_entries:
  "read_strings swapsNeeded e stringDataStart stringDataEnd m currentString num = Inr (es, mf)
   \<Longrightarrow> stringDataStart \<le> currentString
   \<Longrightarrow> chained (currentString - stringDataStart) es
     \<and> (\<forall>x\<in>set es. currentString \<le> stringDataStart + stringOffset x
           \<and> stringDataStart + stringOffset x < stringDataEnd
           \<and> stringDataStart + stringOffset x + 2 \<le> length m
           \<and> stringLength x = load_u16 e mf (stringDataStart + stringOffset x))
     \<and> stringDataEnd \<le> stringDataStart + walk_end (currentString - stringDataStart) es
     \<and> (es = [] \<longleftrightarrow> stringDataEnd \<le> currentString)"
proof (induction swapsNeeded e stringDataStart stringDataEnd m currentString num
    arbitrary: es mf rule: read_strings.induct)
  case (1 swapsNeeded e stringDataStart stringDataEnd m currentString num)
  show ?case
  proof (cases "currentString < stringDataEnd")
    case False
    with "1.prems" show ?thesis
      by (simp add: read_strings_done)
  next
    case True
    define m' where "m' = (if swapsNeeded then BlobString_endian_swap m currentString else m)"
    define len where "len = load_u16 e m' currentString"
    define cur' where "cur' = currentString + (unat len + sizeof_length + unat (len AND 1))"
    from True "1.prems"(1) obtain es' where
      b: "currentString + sizeof_length \<le> length m" and
      es: "es = \<lparr> stringNum = num, stringOffset = currentString - stringDataStart,
             stringLength = len \<rparr> # es'" and
      r: "read_strings swapsNeeded e stringDataStart stringDataEnd m' cur' (num + 1) = Inr (es', mf)"
      unfolding m'_def len_def cur'_def by (rule read_strings_step)
    have le: "stringDataStart \<le> cur'"
      using "1.prems"(2) by (simp add: cur'_def)
    have ih: "chained (cur' - stringDataStart) es'
     \<and> (\<forall>x\<in>set es'. cur' \<le> stringDataStart + stringOffset x
           \<and> stringDataStart + stringOffset x < stringDataEnd
           \<and> stringDataStart + stringOffset x + 2 \<le> length m'
           \<and> stringLength x = load_u16 e mf (stringDataStart + stringOffset x))
     \<and> stringDataEnd \<le> stringDataStart + walk_end (cur' - stringDataStart) es'
     \<and> (es' = [] \<longleftrightarrow> stringDataEnd \<le> cur')"
      using r le unfolding m'_def len_def cur'_def
      by (rule "1.IH" [OF True b refl refl refl refl])
    have adv: "cur' - stringDataStart
        = currentString - stringDataStart + unat len + 2 + unat len mod 2"
      using "1.prems"(2) by (simp add: cur'_def sizeof_length_def unat_and_1)
    have lenm: "length m' = length m"
      by (simp add: m'_def)
    from read_strings_frame [OF r] have fr: "\<forall>k<cur'. mf ! k = m' ! k"
      by simp
    have "load_u16 e mf currentString = load_u16 e m' currentString"
      by (rule load_u16_cong) (simp_all add: fr cur'_def sizeof_length_def)
    then have here: "len = load_u16 e mf (stringDataStart + (currentString - stringDataStart))"
      using "1.prems"(2) by (simp add: len_def)
    have ge: "currentString \<le> cur'"
      by (simp add: cur'_def)
    from ih have ch: "chained (cur' - stringDataStart) es'"
      and el: "\<forall>x\<in>set es'. cur' \<le> stringDataStart + stringOffset x
           \<and> stringDataStart + stringOffset x < stringDataEnd
           \<and> stringDataStart + stringOffset x + 2 \<le> length m'
           \<and> stringLength x = load_u16 e mf (stringDataStart + stringOffset x)"
      and we: "stringDataEnd \<le> stringDataStart + walk_end (cur' - stringDataStart) es'"
      by simp_all
    have c1: "chained (currentString - stringDataStart) es"
      using ch by (simp add: es adv)
    have c2: "\<forall>x\<in>set es. currentString \<le> stringDataStart + stringOffset x
           \<and> stringDataStart + stringOffset x < stringDataEnd
           \<and> stringDataStart + stringOffset x + 2 \<le> length m
           \<and> stringLength x = load_u16 e mf (stringDataStart + stringOffset x)"
    proof
      fix x assume "x \<in> set es"
      then consider "x = \<lparr> stringNum = num, stringOffset = currentString - stringDataStart,
             stringLength = len \<rparr>" | "x \<in> set es'"
        by (auto simp: es)
      then show "currentString \<le> stringDataStart + stringOffset x
           \<and> stringDataStart + stringOffset x < stringDataEnd
           \<and> stringDataStart + stringOffset x + 2 \<le> length m
           \<and> stringLength x = load_u16 e mf (stringDataStart + stringOffset x)"
      proof cases
        case 1
        with True b "1.prems"(2) here show ?thesis
          by (simp add: sizeof_length_def)
      next
        case 2
        with el ge lenm show ?thesis
          by fastforce
      qed
    qed
    have c3: "stringDataEnd \<le> stringDataStart + walk_end (currentString - stringDataStart) es"
      using we by (simp add: es adv add.assoc)
    from c1 c2 c3 True show ?thesis
      by (simp add: es)
  qed
qed

lemma chained_nth:
  "chained off es \<Longrightarrow> Suc i < length es \<Longrightarrow>
   stringOffset (es ! Suc i)
     = stringOffset (es ! i) + unat (stringLength (es ! i)) + 2 + unat (stringLength (es ! i)) mod 2"
proof (induction es arbitrary: off i)
  case Nil
  then show ?case by simp
next
  case (Cons x xs)
  show ?case
  proof (cases i)
    case 0
    with Cons.prems show ?thesis
      by (cases xs) simp_all
  next
    case (Suc j)
    from Cons.prems have "chained (off + unat (stringLength x) + 2 + unat (stringLength x) mod 2) xs"
      by simp
    moreover from Cons.prems Suc have "Suc j < length xs"
      by simp
    ultimately have "stringOffset (xs ! Suc j)
     = stringOffset (xs ! j) + unat (stringLength (xs ! j)) + 2 + unat (stringLength (xs ! j)) mod 2"
      by (rule Cons.IH)
    with Suc show ?thesis
      by simp
  qed
qed

text \<open>
  C7. The entries listed by the enumeration are chained: the first starts at the cursor,
  and an entry of length \<open>len\<close> is followed by the next one \<open>len + 2 + len mod 2\<close> bytes
  later, that is, after the two bytes of the length, \<open>len\<close> bytes of content and one byte
  of padding when \<open>len\<close> is odd; an entry of length 0 takes two bytes. Each listed length
  is the 16-bit value at the entry's offset, and the enumeration stops at the first entry
  boundary at or after the end of the string data.
\<close>

theorem string_table_walk:
  assumes "read_strings swapsNeeded e stringDataStart stringDataEnd m currentString num = Inr (es, mf)"
    and "stringDataStart \<le> currentString"
  shows "chained (currentString - stringDataStart) es
     \<and> (\<forall>i. Suc i < length es \<longrightarrow>
          stringOffset (es ! Suc i)
            = stringOffset (es ! i) + unat (stringLength (es ! i)) + 2
              + unat (stringLength (es ! i)) mod 2)
     \<and> (\<forall>i. Suc i < length es \<longrightarrow> stringLength (es ! i) = 0 \<longrightarrow>
          stringOffset (es ! Suc i) = stringOffset (es ! i) + 2)
     \<and> (\<forall>x\<in>set es. stringDataStart + stringOffset x < stringDataEnd
           \<and> stringDataStart + stringOffset x + 2 \<le> length m
           \<and> stringLength x = load_u16 e mf (stringDataStart + stringOffset x))
     \<and> stringDataEnd \<le> stringDataStart + walk_end (currentString - stringDataStart) es
     \<and> (es = [] \<longleftrightarrow> stringDataEnd \<le> currentString)"
proof -
  note inv = read_strings_entries [OF assms]
  from inv have ch: "chained (currentString - stringDataStart) es"
    by simp
  have nth: "stringOffset (es ! Suc i)
            = stringOffset (es ! i) + unat (stringLength (es ! i)) + 2
              + unat (stringLength (es ! i)) mod 2" if "Suc i < length es" for i
    using ch that by (rule chained_nth)
  have zero: "stringOffset (es ! Suc i) = stringOffset (es ! i) + 2"
    if "Suc i < length es" "stringLength (es ! i) = 0" for i
    using nth [OF that(1)] that(2) by simp
  from inv nth zero show ?thesis
    by blast
qed

text \<open>A string table holding \<open>abc\<close> and its padding byte, the empty string, and \<open>hi\<close>.\<close>

definition example_strings :: "byte list" where
  "example_strings =
     [0x03, 0x00, 0x61, 0x62, 0x63, 0x00, 0x00, 0x00, 0x02, 0x00, 0x68, 0x69]"

lemma example_strings_read:
  "read_strings False LittleEndian 0 12 example_strings 0 1
     = Inr ([\<lparr> stringNum = 1, stringOffset = 0, stringLength = 3 \<rparr>,
             \<lparr> stringNum = 2, stringOffset = 6, stringLength = 0 \<rparr>,
             \<lparr> stringNum = 3, stringOffset = 8, stringLength = 2 \<rparr>], example_strings)"
  by code_simp

theorem string_table_walk_witness:
  "read_strings False LittleEndian 0 12 example_strings 0 1
     = Inr ([\<lparr> stringNum = 1, stringOffset = 0, stringLength = 3 \<rparr>,
             \<lparr> stringNum = 2, stringOffset = 6, stringLength = 0 \<rparr>,
             \<lparr> stringNum = 3, stringOffset = 8, stringLength = 2 \<rparr>], example_strings)
   \<and> chained 0 [\<lparr> stringNum = 1, stringOffset = 0, stringLength = 3 \<rparr>,
             \<lparr> stringNum = 2, stringOffset = 6, stringLength = 0 \<rparr>,
             \<lparr> stringNum = 3, stringOffset = 8, stringLength = 2 \<rparr>]
   \<and> (12::nat) \<le> 0 + walk_end 0 [\<lparr> stringNum = 1, stringOffset = 0, stringLength = 3 \<rparr>,
             \<lparr> stringNum = 2, stringOffset = 6, stringLength = 0 \<rparr>,
             \<lparr> stringNum = 3, stringOffset = 8, stringLength = 2 \<rparr>]"
  using string_table_walk [OF example_strings_read] example_strings_read
  by simp

section \<open>Properties of the string references\<close>

text \<open>
  A blob with one structure whose name is the string at offset 0. The string table is four
  bytes long and its only entry declares a length of 100: the content is the byte \<open>A\<close>
  and a NUL.
\<close>

definition overlong_blob :: "byte list" where
  "overlong_blob =
     [0x01, 0x00, 0x00, 0x00, 0x01, 0x08, 0x01, 0x00, 0x14, 0x00, 0x00, 0x00,
      0x04, 0x00, 0x00, 0x00, 0x01, 0x00, 0x00, 0x00,
      0x00, 0x00, 0x00, 0x00, 0xFF, 0xFF, 0xFF, 0xFF, 0x00, 0x00, 0x00, 0x00,
      0x00, 0x00, 0x00, 0x00, 0x00, 0x00, 0x00, 0x00,
      0x64, 0x00, 0x41, 0x00]"

text \<open>
  C3, as the code has it. No offset and no length of the string table is compared with
  the bounds of the region or of the buffer. A reference resolves to the 16-bit value at
  \<^verbatim>\<open>stringDataStart + offset\<close> whenever those two bytes lie in the buffer, whatever that
  length is; when they do not, the load is an access outside the buffer, which the program
  does not detect. The only failures the program reports are the short reads of the header
  and of the blob.
\<close>

theorem string_references_unchecked:
  "BlobString_length e m (BLOBSTRING_AT stringDataStart offset)
     = (if stringDataStart + unat offset + 2 \<le> length m
        then Inr (load_u16 e m (stringDataStart + unat offset)) else Inl InvalidAccess)
   \<and> (main e file = Inl err \<longrightarrow>
        err = HeaderReadError \<and> length file < sizeof_BlobHeaderV1
        \<or> err = BlobReadError \<and> sizeof_BlobHeaderV1 \<le> length file
            \<and> length file < blobLength_of e file
        \<or> err = InvalidAccess \<and> blobLength_of e file \<le> length file)"
proof (intro conjI impI)
  show "BlobString_length e m (BLOBSTRING_AT stringDataStart offset)
     = (if stringDataStart + unat offset + 2 \<le> length m
        then Inr (load_u16 e m (stringDataStart + unat offset)) else Inl InvalidAccess)"
    by (simp add: BlobString_length_def BLOBSTRING_AT_def sizeof_length_def)
next
  assume a: "main e file = Inl err"
  consider "length file < sizeof_BlobHeaderV1"
    | "sizeof_BlobHeaderV1 \<le> length file" "length file < blobLength_of e file"
    | "blobLength_of e file \<le> length file"
    by linarith
  then show "err = HeaderReadError \<and> length file < sizeof_BlobHeaderV1
        \<or> err = BlobReadError \<and> sizeof_BlobHeaderV1 \<le> length file
            \<and> length file < blobLength_of e file
        \<or> err = InvalidAccess \<and> blobLength_of e file \<le> length file"
  proof cases
    case 1
    with a main_short_header [OF 1, of e] show ?thesis by simp
  next
    case 2
    with a main_short_blob [OF 2] show ?thesis by simp
  next
    case 3
    with main_Inl_later [OF 3 a] show ?thesis by simp
  qed
qed

theorem string_references_unchecked_witness:
  "BlobString_length LittleEndian overlong_blob (BLOBSTRING_AT 40 0) = Inr 100
   \<and> BlobString_length LittleEndian overlong_blob (BLOBSTRING_AT 40 4) = Inl InvalidAccess
   \<and> main LittleEndian truncated_blob = Inl BlobReadError
   \<and> sizeof_BlobHeaderV1 \<le> length truncated_blob
   \<and> length truncated_blob < blobLength_of LittleEndian truncated_blob"
proof -
  have m: "main LittleEndian truncated_blob = Inl BlobReadError"
    by code_simp
  have l: "load_u16 LittleEndian overlong_blob 40 = 100" "length overlong_blob = 44"
    by code_simp+
  from string_references_unchecked [of LittleEndian overlong_blob 40 0 truncated_blob BlobReadError]
    string_references_unchecked [of LittleEndian overlong_blob 40 4 truncated_blob BlobReadError]
    m l
  show ?thesis
    by simp
qed

text \<open>
  The claim as stated fails: the decoder accepts a string of declared length 100 in a
  buffer of 44 bytes, and hands on a name that reaches past the end of the buffer.
\<close>

theorem string_length_past_buffer_counterexample:
  "main LittleEndian overlong_blob
     = Inr \<lparr> out_blobHdrV1 =
               \<lparr> coreVersion = 1, sizeofBool = 1, sizeofUDATA = 8, bitfieldFormat = 1,
                 padding = 0, structDataSize = 20, stringTableDataSize = 4,
                 structureCount = 1 \<rparr>,
             out_swapsNeeded = False,
             out_strings = [\<lparr> stringNum = 1, stringOffset = 0, stringLength = 100 \<rparr>],
             out_decoded =
               [\<lparr> name = 42, nameLength = 100, superName = None, superNameLength = 0,
                  size_of = 0, fields_v = [], constants_v = [] \<rparr>],
             out_structs =
               [\<lparr> name = 42, nameLength = 100, superName = None, superNameLength = 0,
                  size_of = 0, fields_v = [], constants_v = [] \<rparr>],
             out_blobBuffer = overlong_blob \<rparr>
   \<and> length overlong_blob < 42 + 100"
  by code_simp

section \<open>Properties of the structure walker: counts and cursor\<close>

lemma unat_succ_below:
  fixes k n :: "32 word"
  assumes "k \<le> n" and "n \<noteq> - 1"
  shows "unat (k + 1) = unat k + 1"
  by (metis assms(1,2) inc_less_eq_self_iff_eq linorder_linear
    order_antisym_conv unat_plus_simple unsigned_1
    word_order.extremum)

lemma word_gt_unat:
  fixes k n :: "32 word"
  assumes "\<not> k \<le> n" and "unat k \<le> unat n + 1"
  shows "unat k = unat n + 1"
  using assms by (simp add: word_le_nat_alt)

lemma decode_field_values:
  assumes "decode_field swapsNeeded e stringDataStart m p = Inr (f, m')"
  shows "field_name f = BlobString_data (BLOBSTRING_AT stringDataStart (BlobField_declaredName e m' p))"
    and "field_type f = BlobString_data (BLOBSTRING_AT stringDataStart (BlobField_declaredType e m' p))"
    and "field_offset f = BlobField_offset e m' p"
  using assms
  by (auto simp: decode_field_def Let_def split: if_splits sum.splits)

lemma decode_constant_values:
  assumes "decode_constant swapsNeeded e stringDataStart m p = Inr (c, m')"
  shows "const_name c = BlobString_data (BLOBSTRING_AT stringDataStart (BlobConstant_name e m' p))"
    and "const_value c = BlobConstant_value e m' p"
  using assms
  by (auto simp: decode_constant_def Let_def split: if_splits sum.splits)

lemma load_u32_frame:
  assumes "\<forall>k<c. m' ! k = m ! k" and "p + 4 \<le> c"
  shows "load_u32 e m' p = load_u32 e m p"
  by (rule load_u32_cong) (use assms in simp)

lemma load_u64_frame:
  assumes "\<forall>k<c. m' ! k = m ! k" and "p + 8 \<le> c"
  shows "load_u64 e m' p = load_u64 e m p"
proof -
  have "load_u32 x m' p = load_u32 x m p" "load_u32 x m' (p + 4) = load_u32 x m (p + 4)" for x
    using assms by (auto intro: load_u32_frame)
  then show ?thesis
    by (cases e) (simp_all add: load_u64_def)
qed

text \<open>A count of all ones can never be reached by the 32-bit counter: the loop ends only
  by running off the buffer.\<close>

lemma read_fields_all_ones:
  "blobStruct + 16 \<le> currentStruct \<Longrightarrow> BlobStruct_fieldCount e m blobStruct = - 1
   \<Longrightarrow> read_fields swapsNeeded e stringDataStart blobStruct m currentStruct fieldCount
        \<noteq> Inr (fs, cur, mf)"
proof (induction swapsNeeded e stringDataStart blobStruct m currentStruct fieldCount
    arbitrary: fs cur mf rule: read_fields.induct)
  case (1 swapsNeeded e stringDataStart blobStruct m currentStruct fieldCount)
  have le: "fieldCount \<le> BlobStruct_fieldCount e m blobStruct"
    using "1.prems"(2) by simp
  show ?case
  proof
    assume "read_fields swapsNeeded e stringDataStart blobStruct m currentStruct fieldCount
      = Inr (fs, cur, mf)"
    with le obtain field m' fs' where
      d: "decode_field swapsNeeded e stringDataStart m currentStruct = Inr (field, m')" and
      r: "read_fields swapsNeeded e stringDataStart blobStruct m'
            (currentStruct + sizeof_BlobField) (fieldCount + 1) = Inr (fs', cur, mf)"
      by (rule read_fields_step)
    from decode_field_frame [OF d] have "\<forall>k<currentStruct. m' ! k = m ! k"
      by simp
    then have "BlobStruct_fieldCount e m' blobStruct = BlobStruct_fieldCount e m blobStruct"
      unfolding BlobStruct_fieldCount_def
      by (rule load_u32_frame) (use "1.prems"(1) in simp)
    with "1.prems" have "read_fields swapsNeeded e stringDataStart blobStruct m'
            (currentStruct + sizeof_BlobField) (fieldCount + 1) \<noteq> Inr (fs', cur, mf)"
      by (intro "1.IH" [OF le d refl]) simp_all
    with r show False
      by simp
  qed
qed

lemma read_fields_count:
  "blobStruct + 16 \<le> currentStruct
   \<Longrightarrow> read_fields swapsNeeded e stringDataStart blobStruct m currentStruct fieldCount
        = Inr (fs, cur, mf)
   \<Longrightarrow> unat fieldCount \<le> unat (BlobStruct_fieldCount e m blobStruct) + 1
   \<Longrightarrow> unat fieldCount + length fs = unat (BlobStruct_fieldCount e m blobStruct) + 1
       \<and> cur = currentStruct + length fs * sizeof_BlobField"
proof (induction swapsNeeded e stringDataStart blobStruct m currentStruct fieldCount
    arbitrary: fs cur mf rule: read_fields.induct)
  case (1 swapsNeeded e stringDataStart blobStruct m currentStruct fieldCount)
  show ?case
  proof (cases "fieldCount \<le> BlobStruct_fieldCount e m blobStruct")
    case False
    with "1.prems"(2) have "fs = []" "cur = currentStruct"
      by (simp_all add: read_fields_done)
    with word_gt_unat [OF False "1.prems"(3)] show ?thesis
      by simp
  next
    case True
    from True "1.prems"(2) obtain field m' fs' where
      d: "decode_field swapsNeeded e stringDataStart m currentStruct = Inr (field, m')" and
      r: "read_fields swapsNeeded e stringDataStart blobStruct m'
            (currentStruct + sizeof_BlobField) (fieldCount + 1) = Inr (fs', cur, mf)" and
      fs: "fs = field # fs'"
      by (rule read_fields_step)
    from read_fields_all_ones [OF "1.prems"(1)] "1.prems"(2)
    have nmax: "BlobStruct_fieldCount e m blobStruct \<noteq> - 1"
      by blast
    from decode_field_frame [OF d] have "\<forall>k<currentStruct. m' ! k = m ! k"
      by simp
    then have same: "BlobStruct_fieldCount e m' blobStruct = BlobStruct_fieldCount e m blobStruct"
      unfolding BlobStruct_fieldCount_def
      by (rule load_u32_frame) (use "1.prems"(1) in simp)
    have suc: "unat (fieldCount + 1) = unat fieldCount + 1"
      using True nmax by (rule unat_succ_below)
    have "unat (fieldCount + 1) + length fs' = unat (BlobStruct_fieldCount e m' blobStruct) + 1
       \<and> cur = currentStruct + sizeof_BlobField + length fs' * sizeof_BlobField"
    proof (rule "1.IH" [OF True d refl _ r])
      show "blobStruct + 16 \<le> currentStruct + sizeof_BlobField"
        using "1.prems"(1) by simp
      show "unat (fieldCount + 1) \<le> unat (BlobStruct_fieldCount e m' blobStruct) + 1"
        using True by (simp add: suc same word_le_nat_alt)
    qed
    then show ?thesis
      by (simp add: fs suc same)
  qed
qed


lemma read_fields_records:
  "read_fields swapsNeeded e stringDataStart blobStruct m currentStruct fieldCount
        = Inr (fs, cur, mf)
   \<Longrightarrow> i < length fs
   \<Longrightarrow> field_name (fs ! i) = BlobString_data (BLOBSTRING_AT stringDataStart
         (BlobField_declaredName e mf (currentStruct + i * sizeof_BlobField)))
     \<and> field_type (fs ! i) = BlobString_data (BLOBSTRING_AT stringDataStart
         (BlobField_declaredType e mf (currentStruct + i * sizeof_BlobField)))
     \<and> field_offset (fs ! i) = BlobField_offset e mf (currentStruct + i * sizeof_BlobField)"
proof (induction swapsNeeded e stringDataStart blobStruct m currentStruct fieldCount
    arbitrary: fs cur mf i rule: read_fields.induct)
  case (1 swapsNeeded e stringDataStart blobStruct m currentStruct fieldCount)
  show ?case
  proof (cases "fieldCount \<le> BlobStruct_fieldCount e m blobStruct")
    case False
    with "1.prems" show ?thesis
      by (simp add: read_fields_done)
  next
    case True
    from True "1.prems"(1) obtain field m' fs' where
      d: "decode_field swapsNeeded e stringDataStart m currentStruct = Inr (field, m')" and
      r: "read_fields swapsNeeded e stringDataStart blobStruct m'
            (currentStruct + sizeof_BlobField) (fieldCount + 1) = Inr (fs', cur, mf)" and
      fs: "fs = field # fs'"
      by (rule read_fields_step)
    show ?thesis
    proof (cases i)
      case 0
      from read_fields_frame [OF r] have fr: "\<forall>k<currentStruct + sizeof_BlobField. mf ! k = m' ! k"
        by simp
      have "load_u32 e mf currentStruct = load_u32 e m' currentStruct"
        "load_u32 e mf (currentStruct + 4) = load_u32 e m' (currentStruct + 4)"
        "load_u32 e mf (currentStruct + 8) = load_u32 e m' (currentStruct + 8)"
        by (rule load_u32_frame [OF fr], simp add: sizeof_BlobField_def)+
      with decode_field_values [OF d] 0 show ?thesis
        by (simp add: fs BlobField_declaredName_def BlobField_declaredType_def BlobField_offset_def)
    next
      case (Suc j)
      with "1.prems"(2) have j: "j < length fs'"
        by (simp add: fs)
      from "1.IH" [OF True d refl r j] Suc show ?thesis
        by (simp add: fs add.assoc add.commute [of sizeof_BlobField])
    qed
  qed
qed


lemma read_constants_all_ones:
  "blobStruct + 20 \<le> currentStruct \<Longrightarrow> BlobStruct_constCount e m blobStruct = - 1
   \<Longrightarrow> read_constants swapsNeeded e stringDataStart blobStruct m currentStruct constCount
        \<noteq> Inr (cs, cur, mf)"
proof (induction swapsNeeded e stringDataStart blobStruct m currentStruct constCount
    arbitrary: cs cur mf rule: read_constants.induct)
  case (1 swapsNeeded e stringDataStart blobStruct m currentStruct constCount)
  have le: "constCount \<le> BlobStruct_constCount e m blobStruct"
    using "1.prems"(2) by simp
  show ?case
  proof
    assume "read_constants swapsNeeded e stringDataStart blobStruct m currentStruct constCount
      = Inr (cs, cur, mf)"
    with le obtain c m' cs' where
      d: "decode_constant swapsNeeded e stringDataStart m currentStruct = Inr (c, m')" and
      r: "read_constants swapsNeeded e stringDataStart blobStruct m'
            (currentStruct + sizeof_BlobConstant) (constCount + 1) = Inr (cs', cur, mf)"
      by (rule read_constants_step)
    from decode_constant_frame [OF d] have "\<forall>k<currentStruct. m' ! k = m ! k"
      by simp
    then have "BlobStruct_constCount e m' blobStruct = BlobStruct_constCount e m blobStruct"
      unfolding BlobStruct_constCount_def
      by (rule load_u32_frame) (use "1.prems"(1) in simp)
    with "1.prems" have "read_constants swapsNeeded e stringDataStart blobStruct m'
            (currentStruct + sizeof_BlobConstant) (constCount + 1) \<noteq> Inr (cs', cur, mf)"
      by (intro "1.IH" [OF le d refl]) simp_all
    with r show False
      by simp
  qed
qed

lemma read_constants_count:
  "blobStruct + 20 \<le> currentStruct
   \<Longrightarrow> read_constants swapsNeeded e stringDataStart blobStruct m currentStruct constCount
        = Inr (cs, cur, mf)
   \<Longrightarrow> unat constCount \<le> unat (BlobStruct_constCount e m blobStruct) + 1
   \<Longrightarrow> unat constCount + length cs = unat (BlobStruct_constCount e m blobStruct) + 1
       \<and> cur = currentStruct + length cs * sizeof_BlobConstant"
proof (induction swapsNeeded e stringDataStart blobStruct m currentStruct constCount
    arbitrary: cs cur mf rule: read_constants.induct)
  case (1 swapsNeeded e stringDataStart blobStruct m currentStruct constCount)
  show ?case
  proof (cases "constCount \<le> BlobStruct_constCount e m blobStruct")
    case False
    with "1.prems"(2) have "cs = []" "cur = currentStruct"
      by (simp_all add: read_constants_done)
    with word_gt_unat [OF False "1.prems"(3)] show ?thesis
      by simp
  next
    case True
    from True "1.prems"(2) obtain c m' cs' where
      d: "decode_constant swapsNeeded e stringDataStart m currentStruct = Inr (c, m')" and
      r: "read_constants swapsNeeded e stringDataStart blobStruct m'
            (currentStruct + sizeof_BlobConstant) (constCount + 1) = Inr (cs', cur, mf)" and
      cs: "cs = c # cs'"
      by (rule read_constants_step)
    from read_constants_all_ones [OF "1.prems"(1)] "1.prems"(2)
    have nmax: "BlobStruct_constCount e m blobStruct \<noteq> - 1"
      by blast
    from decode_constant_frame [OF d] have "\<forall>k<currentStruct. m' ! k = m ! k"
      by simp
    then have same: "BlobStruct_constCount e m' blobStruct = BlobStruct_constCount e m blobStruct"
      unfolding BlobStruct_constCount_def
      by (rule load_u32_frame) (use "1.prems"(1) in simp)
    have suc: "unat (constCount + 1) = unat constCount + 1"
      using True nmax by (rule unat_succ_below)
    have "unat (constCount + 1) + length cs' = unat (BlobStruct_constCount e m' blobStruct) + 1
       \<and> cur = currentStruct + sizeof_BlobConstant + length cs' * sizeof_BlobConstant"
    proof (rule "1.IH" [OF True d refl _ r])
      show "blobStruct + 20 \<le> currentStruct + sizeof_BlobConstant"
        using "1.prems"(1) by simp
      show "unat (constCount + 1) \<le> unat (BlobStruct_constCount e m' blobStruct) + 1"
        using True by (simp add: suc same word_le_nat_alt)
    qed
    then show ?thesis
      by (simp add: cs suc same)
  qed
qed


lemma read_constants_records:
  "read_constants swapsNeeded e stringDataStart blobStruct m currentStruct constCount
        = Inr (cs, cur, mf)
   \<Longrightarrow> i < length cs
   \<Longrightarrow> const_name (cs ! i) = BlobString_data (BLOBSTRING_AT stringDataStart
         (BlobConstant_name e mf (currentStruct + i * sizeof_BlobConstant)))
     \<and> const_value (cs ! i) = BlobConstant_value e mf (currentStruct + i * sizeof_BlobConstant)"
proof (induction swapsNeeded e stringDataStart blobStruct m currentStruct constCount
    arbitrary: cs cur mf i rule: read_constants.induct)
  case (1 swapsNeeded e stringDataStart blobStruct m currentStruct constCount)
  show ?case
  proof (cases "constCount \<le> BlobStruct_constCount e m blobStruct")
    case False
    with "1.prems" show ?thesis
      by (simp add: read_constants_done)
  next
    case True
    from True "1.prems"(1) obtain c m' cs' where
      d: "decode_constant swapsNeeded e stringDataStart m currentStruct = Inr (c, m')" and
      r: "read_constants swapsNeeded e stringDataStart blobStruct m'
            (currentStruct + sizeof_BlobConstant) (constCount + 1) = Inr (cs', cur, mf)" and
      cs: "cs = c # cs'"
      by (rule read_constants_step)
    show ?thesis
    proof (cases i)
      case 0
      from read_constants_frame [OF r] have fr: "\<forall>k<currentStruct + sizeof_BlobConstant. mf ! k = m' ! k"
        by simp
      have "load_u32 e mf currentStruct = load_u32 e m' currentStruct"
        by (rule load_u32_frame [OF fr]) (simp add: sizeof_BlobConstant_def)
      moreover have "load_u64 e mf (currentStruct + 4) = load_u64 e m' (currentStruct + 4)"
        by (rule load_u64_frame [OF fr]) (simp add: sizeof_BlobConstant_def)
      ultimately show ?thesis
        using decode_constant_values [OF d] 0
        by (simp add: cs BlobConstant_name_def BlobConstant_value_def)
    next
      case (Suc j)
      with "1.prems"(2) have j: "j < length cs'"
        by (simp add: cs)
      from "1.IH" [OF True d refl r j] Suc show ?thesis
        by (simp add: cs add.assoc add.commute [of sizeof_BlobConstant])
    qed
  qed
qed

lemma BlobField_frame:
  assumes "\<forall>k<c. m' ! k = m ! k" and "p + 12 \<le> c"
  shows "BlobField_declaredName e m' p = BlobField_declaredName e m p"
    and "BlobField_declaredType e m' p = BlobField_declaredType e m p"
    and "BlobField_offset e m' p = BlobField_offset e m p"
  unfolding BlobField_declaredName_def BlobField_declaredType_def BlobField_offset_def
  by (rule load_u32_frame [OF assms(1)], use assms(2) in simp)+

lemma BlobStruct_counts_frame:
  assumes "\<forall>k<c. m' ! k = m ! k" and "p + 20 \<le> c"
  shows "BlobStruct_fieldCount e m' p = BlobStruct_fieldCount e m p"
    and "BlobStruct_constCount e m' p = BlobStruct_constCount e m p"
  unfolding BlobStruct_fieldCount_def BlobStruct_constCount_def
  by (rule load_u32_frame [OF assms(1)], use assms(2) in simp)+

lemma read_struct_cursor:
  assumes "read_struct swapsNeeded e stringDataStart m currentStruct = Inr (s, cur, mf)"
  shows "length (fields_v s) = unat (BlobStruct_fieldCount e mf currentStruct)
     \<and> length (constants_v s) = unat (BlobStruct_constCount e mf currentStruct)
     \<and> cur = currentStruct + sizeof_BlobStruct
          + unat (BlobStruct_fieldCount e mf currentStruct) * sizeof_BlobField
          + unat (BlobStruct_constCount e mf currentStruct) * sizeof_BlobConstant
     \<and> BlobStruct_fieldCount e mf currentStruct
          = BlobStruct_fieldCount (if swapsNeeded then opposite e else e) m currentStruct
     \<and> BlobStruct_constCount e mf currentStruct
          = BlobStruct_constCount (if swapsNeeded then opposite e else e) m currentStruct
     \<and> (\<forall>i<length (fields_v s).
          field_name (fields_v s ! i) = BlobString_data (BLOBSTRING_AT stringDataStart
            (BlobField_declaredName e mf (currentStruct + sizeof_BlobStruct + i * sizeof_BlobField)))
          \<and> field_type (fields_v s ! i) = BlobString_data (BLOBSTRING_AT stringDataStart
            (BlobField_declaredType e mf (currentStruct + sizeof_BlobStruct + i * sizeof_BlobField)))
          \<and> field_offset (fields_v s ! i)
            = BlobField_offset e mf (currentStruct + sizeof_BlobStruct + i * sizeof_BlobField))
     \<and> (\<forall>j<length (constants_v s).
          const_name (constants_v s ! j) = BlobString_data (BLOBSTRING_AT stringDataStart
            (BlobConstant_name e mf (currentStruct + sizeof_BlobStruct
               + length (fields_v s) * sizeof_BlobField + j * sizeof_BlobConstant)))
          \<and> const_value (constants_v s ! j)
            = BlobConstant_value e mf (currentStruct + sizeof_BlobStruct
               + length (fields_v s) * sizeof_BlobField + j * sizeof_BlobConstant))"
proof -
  define m1 where "m1 = (if swapsNeeded then BlobStruct_endian_swap m currentStruct else m)"
  from assms obtain builtStruct fs cur2 m2 cs where
    len: "currentStruct + sizeof_BlobStruct \<le> length m" and
    f: "read_fields swapsNeeded e stringDataStart currentStruct m1
       (currentStruct + sizeof_BlobStruct) 1 = Inr (fs, cur2, m2)" and
    c: "read_constants swapsNeeded e stringDataStart currentStruct m2 cur2 1 = Inr (cs, cur, mf)" and
    s: "s = builtStruct\<lparr>fields_v := fs, constants_v := cs\<rparr>"
    unfolding m1_def by (rule read_struct_parts)
  have sz: "sizeof_BlobStruct = 20" "sizeof_BlobField = 12" "sizeof_BlobConstant = 12"
    by (simp_all add: sizeof_BlobStruct_def sizeof_BlobField_def sizeof_BlobConstant_def)
  have fcount: "1 + length fs = unat (BlobStruct_fieldCount e m1 currentStruct) + 1
      \<and> cur2 = currentStruct + sizeof_BlobStruct + length fs * sizeof_BlobField"
    using read_fields_count [OF _ f] by (simp add: sz)
  then have cur2: "cur2 = currentStruct + 20 + length fs * 12"
    by (simp add: sz)
  from read_fields_frame [OF f] have fr1: "\<forall>k<currentStruct + 20. m2 ! k = m1 ! k"
    by (simp add: sz)
  from read_constants_frame [OF c] have fr2: "\<forall>k<cur2. mf ! k = m2 ! k"
    by simp
  have counts2: "BlobStruct_fieldCount e m2 currentStruct = BlobStruct_fieldCount e m1 currentStruct"
    "BlobStruct_constCount e m2 currentStruct = BlobStruct_constCount e m1 currentStruct"
    by (rule BlobStruct_counts_frame [OF fr1], simp)+
  have countsf: "BlobStruct_fieldCount e mf currentStruct = BlobStruct_fieldCount e m2 currentStruct"
    "BlobStruct_constCount e mf currentStruct = BlobStruct_constCount e m2 currentStruct"
    by (rule BlobStruct_counts_frame [OF fr2], simp add: cur2)+
  have ccount: "1 + length cs = unat (BlobStruct_constCount e m2 currentStruct) + 1
      \<and> cur = cur2 + length cs * sizeof_BlobConstant"
    using read_constants_count [OF _ c] by (simp add: cur2)
  have disk: "BlobStruct_fieldCount e m1 currentStruct
          = BlobStruct_fieldCount (if swapsNeeded then opposite e else e) m currentStruct"
    "BlobStruct_constCount e m1 currentStruct
          = BlobStruct_constCount (if swapsNeeded then opposite e else e) m currentStruct"
    using len by (simp_all add: m1_def sz BlobStruct_endian_swap_fields)
  have frec: "field_name (fs ! i) = BlobString_data (BLOBSTRING_AT stringDataStart
            (BlobField_declaredName e mf (currentStruct + sizeof_BlobStruct + i * sizeof_BlobField)))
          \<and> field_type (fs ! i) = BlobString_data (BLOBSTRING_AT stringDataStart
            (BlobField_declaredType e mf (currentStruct + sizeof_BlobStruct + i * sizeof_BlobField)))
          \<and> field_offset (fs ! i)
            = BlobField_offset e mf (currentStruct + sizeof_BlobStruct + i * sizeof_BlobField)"
    if "i < length fs" for i
  proof -
    have "currentStruct + sizeof_BlobStruct + i * sizeof_BlobField + 12 \<le> cur2"
      using that by (simp add: cur2 sz)
    from BlobField_frame [OF fr2 this] read_fields_records [OF f that] show ?thesis
      by simp
  qed
  have crec: "const_name (cs ! j) = BlobString_data (BLOBSTRING_AT stringDataStart
            (BlobConstant_name e mf (currentStruct + sizeof_BlobStruct
               + length fs * sizeof_BlobField + j * sizeof_BlobConstant)))
          \<and> const_value (cs ! j)
            = BlobConstant_value e mf (currentStruct + sizeof_BlobStruct
               + length fs * sizeof_BlobField + j * sizeof_BlobConstant)"
    if "j < length cs" for j
    using read_constants_records [OF c that] by (simp add: cur2 sz)
  from fcount ccount counts2 countsf disk frec crec show ?thesis
    by (simp add: s cur2 sz)
qed

text \<open>
  C2. A structure that is decoded has as many fields as the \<^verbatim>\<open>fieldCount\<close> of its record
  and as many constants as its \<^verbatim>\<open>constCount\<close> (the counts as stored, byte-swapped when swaps
  are needed); the cursor advances by the size of the structure record plus
  \<^verbatim>\<open>fieldCount\<close> field records plus \<^verbatim>\<open>constCount\<close> constant records; field \<open>i\<close> comes from the
  record \<open>i\<close> field records after the structure record, and constant \<open>j\<close> from the record
  \<open>j\<close> constant records after the last field. The structure loop decodes the next
  structure at exactly that cursor.
\<close>

theorem structure_record_cursor:
  "(read_struct swapsNeeded e stringDataStart m currentStruct = Inr (s, cur, mf) \<longrightarrow>
      length (fields_v s) = unat (BlobStruct_fieldCount e mf currentStruct)
      \<and> length (constants_v s) = unat (BlobStruct_constCount e mf currentStruct)
      \<and> cur = currentStruct + sizeof_BlobStruct
           + unat (BlobStruct_fieldCount e mf currentStruct) * sizeof_BlobField
           + unat (BlobStruct_constCount e mf currentStruct) * sizeof_BlobConstant
      \<and> BlobStruct_fieldCount e mf currentStruct
           = BlobStruct_fieldCount (if swapsNeeded then opposite e else e) m currentStruct
      \<and> BlobStruct_constCount e mf currentStruct
           = BlobStruct_constCount (if swapsNeeded then opposite e else e) m currentStruct
      \<and> (\<forall>i<length (fields_v s).
           field_name (fields_v s ! i) = BlobString_data (BLOBSTRING_AT stringDataStart
             (BlobField_declaredName e mf (currentStruct + sizeof_BlobStruct + i * sizeof_BlobField)))
           \<and> field_type (fields_v s ! i) = BlobString_data (BLOBSTRING_AT stringDataStart
             (BlobField_declaredType e mf (currentStruct + sizeof_BlobStruct + i * sizeof_BlobField)))
           \<and> field_offset (fields_v s ! i)
             = BlobField_offset e mf (currentStruct + sizeof_BlobStruct + i * sizeof_BlobField))
      \<and> (\<forall>j<length (constants_v s).
           const_name (constants_v s ! j) = BlobString_data (BLOBSTRING_AT stringDataStart
             (BlobConstant_name e mf (currentStruct + sizeof_BlobStruct
                + length (fields_v s) * sizeof_BlobField + j * sizeof_BlobConstant)))
           \<and> const_value (constants_v s ! j)
             = BlobConstant_value e mf (currentStruct + sizeof_BlobStruct
                + length (fields_v s) * sizeof_BlobField + j * sizeof_BlobConstant)))
   \<and> (structCount \<le> structureCount_hdr
       \<and> read_structs swapsNeeded e stringDataStart structureCount_hdr m currentStruct structCount
           = Inr (ss, curf, mff) \<longrightarrow>
       (\<exists>s1 cur1 m1 ss'.
          read_struct swapsNeeded e stringDataStart m currentStruct = Inr (s1, cur1, m1)
          \<and> ss = s1 # ss'
          \<and> cur1 = currentStruct + sizeof_BlobStruct + length (fields_v s1) * sizeof_BlobField
              + length (constants_v s1) * sizeof_BlobConstant
          \<and> read_structs swapsNeeded e stringDataStart structureCount_hdr m1 cur1 (structCount + 1)
              = Inr (ss', curf, mff)))"
proof (rule conjI; rule impI)
  assume "read_struct swapsNeeded e stringDataStart m currentStruct = Inr (s, cur, mf)"
  from read_struct_cursor [OF this]
  show "length (fields_v s) = unat (BlobStruct_fieldCount e mf currentStruct)
      \<and> length (constants_v s) = unat (BlobStruct_constCount e mf currentStruct)
      \<and> cur = currentStruct + sizeof_BlobStruct
           + unat (BlobStruct_fieldCount e mf currentStruct) * sizeof_BlobField
           + unat (BlobStruct_constCount e mf currentStruct) * sizeof_BlobConstant
      \<and> BlobStruct_fieldCount e mf currentStruct
           = BlobStruct_fieldCount (if swapsNeeded then opposite e else e) m currentStruct
      \<and> BlobStruct_constCount e mf currentStruct
           = BlobStruct_constCount (if swapsNeeded then opposite e else e) m currentStruct
      \<and> (\<forall>i<length (fields_v s).
           field_name (fields_v s ! i) = BlobString_data (BLOBSTRING_AT stringDataStart
             (BlobField_declaredName e mf (currentStruct + sizeof_BlobStruct + i * sizeof_BlobField)))
           \<and> field_type (fields_v s ! i) = BlobString_data (BLOBSTRING_AT stringDataStart
             (BlobField_declaredType e mf (currentStruct + sizeof_BlobStruct + i * sizeof_BlobField)))
           \<and> field_offset (fields_v s ! i)
             = BlobField_offset e mf (currentStruct + sizeof_BlobStruct + i * sizeof_BlobField))
      \<and> (\<forall>j<length (constants_v s).
           const_name (constants_v s ! j) = BlobString_data (BLOBSTRING_AT stringDataStart
             (BlobConstant_name e mf (currentStruct + sizeof_BlobStruct
                + length (fields_v s) * sizeof_BlobField + j * sizeof_BlobConstant)))
           \<and> const_value (constants_v s ! j)
             = BlobConstant_value e mf (currentStruct + sizeof_BlobStruct
                + length (fields_v s) * sizeof_BlobField + j * sizeof_BlobConstant))" .
next
  assume a: "structCount \<le> structureCount_hdr
       \<and> read_structs swapsNeeded e stringDataStart structureCount_hdr m currentStruct structCount
           = Inr (ss, curf, mff)"
  then obtain s1 cur1 m1 ss' where
    d: "read_struct swapsNeeded e stringDataStart m currentStruct = Inr (s1, cur1, m1)" and
    r: "read_structs swapsNeeded e stringDataStart structureCount_hdr m1 cur1 (structCount + 1)
       = Inr (ss', curf, mff)" and
    ss: "ss = s1 # ss'"
    by (blast elim: read_structs_step)
  from read_struct_cursor [OF d]
  have "cur1 = currentStruct + sizeof_BlobStruct + length (fields_v s1) * sizeof_BlobField
              + length (constants_v s1) * sizeof_BlobConstant"
    by simp
  with d r ss show "\<exists>s1 cur1 m1 ss'.
          read_struct swapsNeeded e stringDataStart m currentStruct = Inr (s1, cur1, m1)
          \<and> ss = s1 # ss'
          \<and> cur1 = currentStruct + sizeof_BlobStruct + length (fields_v s1) * sizeof_BlobField
              + length (constants_v s1) * sizeof_BlobConstant
          \<and> read_structs swapsNeeded e stringDataStart structureCount_hdr m1 cur1 (structCount + 1)
              = Inr (ss', curf, mff)"
    by blast
qed

text \<open>The two structures of the example blob, as a little-endian host decodes them.\<close>

definition example_first :: Structure where
  "example_first =
     \<lparr> name = 98, nameLength = 1, superName = None, superNameLength = 0, size_of = 16,
       fields_v =
         [\<lparr> field_name = 106, field_nameLength = 1, field_type = 110,
            field_typeLength = 2, field_offset = 0 \<rparr>,
          \<lparr> field_name = 106, field_nameLength = 1, field_type = 110,
            field_typeLength = 2, field_offset = 8 \<rparr>],
       constants_v =
         [\<lparr> const_name = 106, const_nameLength = 1, const_value = 0x100000002 \<rparr>] \<rparr>"

definition example_second :: Structure where
  "example_second =
     \<lparr> name = 102, nameLength = 2, superName = Some 98, superNameLength = 1, size_of = 16,
       fields_v = [], constants_v = [] \<rparr>"

lemma example_blob_first_struct:
  "read_struct False LittleEndian 96 example_blob 20 = Inr (example_first, 76, example_blob)"
  by code_simp

lemma example_blob_structs:
  "read_structs False LittleEndian 96 2 example_blob 20 1
     = Inr ([example_first, example_second], 96, example_blob)"
  by code_simp

theorem structure_record_cursor_witness:
  "read_struct False LittleEndian 96 example_blob 20 = Inr (example_first, 76, example_blob)
   \<and> length (fields_v example_first) = 2
   \<and> length (constants_v example_first) = 1
   \<and> unat (BlobStruct_fieldCount LittleEndian example_blob 20) = 2
   \<and> unat (BlobStruct_constCount LittleEndian example_blob 20) = 1
   \<and> (76 :: nat) = 20 + sizeof_BlobStruct + 2 * sizeof_BlobField + 1 * sizeof_BlobConstant
   \<and> (1 :: 32 word) \<le> 2
   \<and> read_structs False LittleEndian 96 2 example_blob 20 1
       = Inr ([example_first, example_second], 96, example_blob)
   \<and> read_structs False LittleEndian 96 2 example_blob 76 (1 + 1)
       = Inr ([example_second], 96, example_blob)"
proof -
  note t = structure_record_cursor [of False LittleEndian 96 example_blob 20 example_first 76
      example_blob 1 2 "[example_first, example_second]" 96 example_blob]
  have l: "length (fields_v example_first) = 2" "length (constants_v example_first) = 1"
    by (simp_all add: example_first_def)
  from t example_blob_first_struct
  have "length (fields_v example_first) = unat (BlobStruct_fieldCount LittleEndian example_blob 20)"
    "length (constants_v example_first) = unat (BlobStruct_constCount LittleEndian example_blob 20)"
    by blast+
  with l have counts: "unat (BlobStruct_fieldCount LittleEndian example_blob 20) = 2"
    "unat (BlobStruct_constCount LittleEndian example_blob 20) = 1"
    by simp_all
  have cur: "(76 :: nat) = 20 + sizeof_BlobStruct + 2 * sizeof_BlobField + 1 * sizeof_BlobConstant"
    by (simp add: sizeof_BlobStruct_def sizeof_BlobField_def sizeof_BlobConstant_def)
  have le: "(1 :: 32 word) \<le> 2"
    by simp
  from t le example_blob_structs
  obtain s1 cur1 m1 ss' where
    "read_struct False LittleEndian 96 example_blob 20 = Inr (s1, cur1, m1)"
    "[example_first, example_second] = s1 # ss'"
    "read_structs False LittleEndian 96 2 m1 cur1 (1 + 1) = Inr (ss', 96, example_blob)"
    by blast
  with example_blob_first_struct
  have "read_structs False LittleEndian 96 2 example_blob 76 (1 + 1)
       = Inr ([example_second], 96, example_blob)"
    by simp
  with example_blob_first_struct example_blob_structs l counts cur le show ?thesis
    by blast
qed

section \<open>The length fields swapped by the enumeration\<close>

lemma load_u16_swap_u16:
  assumes "p + 2 \<le> length m"
  shows "load_u16 e (swap_u16 m p) p = load_u16 (opposite e) m p"
proof -
  have "swap_u16 m p ! p = m ! (p + 1)" "swap_u16 m p ! (p + 1) = m ! p"
    using swap_u16_nth_in [OF assms, of 0] swap_u16_nth_in [OF assms, of 1] by simp_all
  then show ?thesis
    unfolding load_u16_def by (cases e) (simp_all only: endian.case opposite.simps)
qed

lemma read_strings_swapped:
  "read_strings swapsNeeded e stringDataStart stringDataEnd m currentString num = Inr (es, mf)
   \<Longrightarrow> stringDataStart \<le> currentString
   \<Longrightarrow> (\<forall>x\<in>set es. load_u16 e mf (stringDataStart + stringOffset x)
           = load_u16 (if swapsNeeded then opposite e else e) m (stringDataStart + stringOffset x))
     \<and> (\<forall>k. (\<forall>x\<in>set es. k \<noteq> stringDataStart + stringOffset x
               \<and> k \<noteq> stringDataStart + stringOffset x + 1) \<longrightarrow> mf ! k = m ! k)"
proof (induction swapsNeeded e stringDataStart stringDataEnd m currentString num
    arbitrary: es mf rule: read_strings.induct)
  case (1 swapsNeeded e stringDataStart stringDataEnd m currentString num)
  show ?case
  proof (cases "currentString < stringDataEnd")
    case False
    with "1.prems" show ?thesis
      by (simp add: read_strings_done)
  next
    case True
    define m' where "m' = (if swapsNeeded then BlobString_endian_swap m currentString else m)"
    define len where "len = load_u16 e m' currentString"
    define cur' where "cur' = currentString + (unat len + sizeof_length + unat (len AND 1))"
    define e' where "e' = (if swapsNeeded then opposite e else e)"
    from True "1.prems"(1) obtain es' where
      b: "currentString + sizeof_length \<le> length m" and
      es: "es = \<lparr> stringNum = num, stringOffset = currentString - stringDataStart,
             stringLength = len \<rparr> # es'" and
      r: "read_strings swapsNeeded e stringDataStart stringDataEnd m' cur' (num + 1) = Inr (es', mf)"
      unfolding m'_def len_def cur'_def by (rule read_strings_step)
    have le: "stringDataStart \<le> cur'"
      using "1.prems"(2) by (simp add: cur'_def)
    have ih: "(\<forall>x\<in>set es'. load_u16 e mf (stringDataStart + stringOffset x)
           = load_u16 e' m' (stringDataStart + stringOffset x))
     \<and> (\<forall>k. (\<forall>x\<in>set es'. k \<noteq> stringDataStart + stringOffset x
               \<and> k \<noteq> stringDataStart + stringOffset x + 1) \<longrightarrow> mf ! k = m' ! k)"
      using r le unfolding m'_def len_def cur'_def e'_def
      by (rule "1.IH" [OF True b refl refl refl refl])
    have out: "m' ! k = m ! k" if "k \<noteq> currentString" "k \<noteq> currentString + 1" for k
    proof -
      from that have "k < currentString \<or> currentString + 2 \<le> k"
        by arith
      then show ?thesis
        by (simp add: m'_def BlobString_endian_swap_nth_out)
    qed
    have later: "\<forall>x\<in>set es'. cur' \<le> stringDataStart + stringOffset x"
      using read_strings_entries [OF r le] by simp
    have adv: "currentString + 2 \<le> cur'"
      by (simp add: cur'_def sizeof_length_def)
    from read_strings_frame [OF r] have fr: "\<forall>k<cur'. mf ! k = m' ! k"
      by simp
    have "load_u16 e mf currentString = load_u16 e m' currentString"
      by (rule load_u16_cong) (use fr adv in simp_all)
    also have "\<dots> = load_u16 e' m currentString"
      using b by (simp add: m'_def e'_def BlobString_endian_swap_def load_u16_swap_u16 sizeof_length_def)
    finally have here: "load_u16 e mf currentString = load_u16 e' m currentString" .
    have c1: "\<forall>x\<in>set es. load_u16 e mf (stringDataStart + stringOffset x)
           = load_u16 e' m (stringDataStart + stringOffset x)"
    proof
      fix x assume "x \<in> set es"
      then consider "x = \<lparr> stringNum = num, stringOffset = currentString - stringDataStart,
             stringLength = len \<rparr>" | "x \<in> set es'"
        by (auto simp: es)
      then show "load_u16 e mf (stringDataStart + stringOffset x)
           = load_u16 e' m (stringDataStart + stringOffset x)"
      proof cases
        case 1
        with here "1.prems"(2) show ?thesis
          by simp
      next
        case 2
        with later adv have far: "currentString + 2 \<le> stringDataStart + stringOffset x"
          by fastforce
        have "load_u16 e' m' (stringDataStart + stringOffset x)
            = load_u16 e' m (stringDataStart + stringOffset x)"
          by (rule load_u16_cong; rule out) (use far in simp_all)
        with ih 2 show ?thesis
          by simp
      qed
    qed
    have c2: "mf ! k = m ! k"
      if "\<forall>x\<in>set es. k \<noteq> stringDataStart + stringOffset x
               \<and> k \<noteq> stringDataStart + stringOffset x + 1" for k
    proof -
      from that "1.prems"(2) have "k \<noteq> currentString" "k \<noteq> currentString + 1"
        by (simp_all add: es)
      moreover from that ih have "mf ! k = m' ! k"
        by (simp add: es)
      ultimately show ?thesis
        by (simp add: out)
    qed
    from c1 c2 show ?thesis
      unfolding e'_def by blast
  qed
qed

section \<open>Byte-reversed blocks\<close>

text \<open>
  A block of \<open>n\<close> bytes at \<open>p\<close> is byte-reversed between two memories when the second
  holds there the bytes of the first in the opposite order.
\<close>

definition reversed :: "memory \<Rightarrow> memory \<Rightarrow> nat \<Rightarrow> nat \<Rightarrow> bool" where
  "reversed before after p n = (take n (drop p after) = rev (take n (drop p before)))"

lemma reversedI:
  assumes "p + n \<le> length before" and "length after = length before"
    and "\<And>j. j < n \<Longrightarrow> after ! (p + j) = before ! (p + (n - 1 - j))"
  shows "reversed before after p n"
  unfolding reversed_def
proof (rule nth_equalityI)
  show "length (take n (drop p after)) = length (rev (take n (drop p before)))"
    using assms(1,2) by simp
next
  fix j assume "j < length (take n (drop p after))"
  then have j: "j < n"
    by simp
  then have "rev (take n (drop p before)) ! j = take n (drop p before) ! (n - 1 - j)"
    using assms(1) by (simp add: rev_nth)
  also have "\<dots> = before ! (p + (n - 1 - j))"
    using j assms(1) by simp
  finally show "take n (drop p after) ! j = rev (take n (drop p before)) ! j"
    using j assms by simp
qed

lemma reversed_nth:
  assumes "reversed before after p n" and "p + n \<le> length before" and "p + n \<le> length after"
    and "j < n"
  shows "after ! (p + j) = before ! (p + (n - 1 - j))"
proof -
  have "after ! (p + j) = take n (drop p after) ! j"
    using assms(3,4) by simp
  also have "\<dots> = rev (take n (drop p before)) ! j"
    using assms(1) by (simp add: reversed_def)
  also have "\<dots> = take n (drop p before) ! (n - 1 - j)"
    using assms(2,4) by (simp add: rev_nth)
  also have "\<dots> = before ! (p + (n - 1 - j))"
    using assms(2,4) by simp
  finally show ?thesis .
qed

lemma same_block:
  assumes "\<And>k. p \<le> k \<Longrightarrow> k < p + n \<Longrightarrow> a ! k = b ! k" and "length a = length b"
  shows "take n (drop p a) = take n (drop p b)"
proof (rule nth_equalityI)
  show "length (take n (drop p a)) = length (take n (drop p b))"
    using assms(2) by simp
next
  fix j assume "j < length (take n (drop p a))"
  then have "j < n" "p + j < length a"
    by auto
  with assms show "take n (drop p a) ! j = take n (drop p b) ! j"
    by simp
qed

lemma reversed_after:
  assumes "reversed before after p n"
    and "\<And>k. p \<le> k \<Longrightarrow> k < p + n \<Longrightarrow> after' ! k = after ! k" and "length after' = length after"
  shows "reversed before after' p n"
  using assms(1) same_block [of p n after' after, OF assms(2,3)]
  by (simp add: reversed_def)

lemma reversed_before:
  assumes "reversed before after p n"
    and "\<And>k. p \<le> k \<Longrightarrow> k < p + n \<Longrightarrow> before' ! k = before ! k" and "length before' = length before"
  shows "reversed before' after p n"
  using assms(1) same_block [of p n before' before, OF assms(2,3)]
  by (simp add: reversed_def)

lemma reversed_swap_u16:
  "p + 2 \<le> length m \<Longrightarrow> reversed m (swap_u16 m p) p 2"
  by (rule reversedI) (simp_all add: swap_u16_nth_in)

lemma reversed_swap_u32:
  "p + 4 \<le> length m \<Longrightarrow> reversed m (swap_u32 m p) p 4"
  by (rule reversedI) (simp_all add: swap_u32_nth_in)

lemma reversed_swap_value_bytes:
  "p + 8 \<le> length m \<Longrightarrow> reversed m (swap_value_bytes m p) p 8"
  by (rule reversedI) (simp_all add: swap_value_bytes_nth_in)

lemma reversed_swap_u32_other:
  assumes "reversed a b q 4" and "q + 4 \<le> p \<or> p + 4 \<le> q"
  shows "reversed a (swap_u32 b p) q 4"
  using assms(1)
proof (rule reversed_after)
  fix k assume "q \<le> k" "k < q + 4"
  with assms(2) show "swap_u32 b p ! k = b ! k"
    by (intro swap_u32_nth_out) arith
qed simp

lemma reversed_BlobField_endian_swap:
  assumes "p + 12 \<le> length m"
  shows "reversed m (BlobField_endian_swap m p) p 4"
    and "reversed m (BlobField_endian_swap m p) (p + 4) 4"
    and "reversed m (BlobField_endian_swap m p) (p + 8) 4"
proof -
  have a: "reversed m (swap_u32 m p) p 4"
    using assms by (intro reversed_swap_u32) simp
  have b: "reversed m (swap_u32 (swap_u32 m p) (p + 4)) (p + 4) 4"
  proof (rule reversed_before)
    show "reversed (swap_u32 m p) (swap_u32 (swap_u32 m p) (p + 4)) (p + 4) 4"
      using assms by (intro reversed_swap_u32) simp
  qed (simp_all add: swap_u32_nth_out)
  have c: "reversed m (BlobField_endian_swap m p) (p + 8) 4"
    unfolding BlobField_endian_swap_def
  proof (rule reversed_before)
    show "reversed (swap_u32 (swap_u32 m p) (p + 4))
        (swap_u32 (swap_u32 (swap_u32 m p) (p + 4)) (p + 8)) (p + 8) 4"
      using assms by (intro reversed_swap_u32) simp
  qed (simp_all add: swap_u32_nth_out)
  show "reversed m (BlobField_endian_swap m p) p 4"
    unfolding BlobField_endian_swap_def
    by (intro reversed_swap_u32_other a) simp_all
  show "reversed m (BlobField_endian_swap m p) (p + 4) 4"
    unfolding BlobField_endian_swap_def
    by (intro reversed_swap_u32_other b) simp_all
  show "reversed m (BlobField_endian_swap m p) (p + 8) 4"
    by (rule c)
qed

lemma reversed_BlobConstant_endian_swap:
  assumes "p + 12 \<le> length m"
  shows "reversed m (BlobConstant_endian_swap m p) p 4"
    and "reversed m (BlobConstant_endian_swap m p) (p + 4) 8"
proof -
  show "reversed m (BlobConstant_endian_swap m p) p 4"
    unfolding BlobConstant_endian_swap_def
  proof (rule reversed_after)
    show "reversed m (swap_u32 m p) p 4"
      using assms by (intro reversed_swap_u32) simp
  qed (simp_all add: swap_value_bytes_nth_out)
  show "reversed m (BlobConstant_endian_swap m p) (p + 4) 8"
    unfolding BlobConstant_endian_swap_def
  proof (rule reversed_before)
    show "reversed (swap_u32 m p) (swap_value_bytes (swap_u32 m p) (p + 4)) (p + 4) 8"
      using assms by (intro reversed_swap_value_bytes) simp
  qed (simp_all add: swap_u32_nth_out)
qed

lemma reversed_BlobStruct_endian_swap:
  assumes "p + 20 \<le> length m" and "w < 5"
  shows "reversed m (BlobStruct_endian_swap m p) (p + 4 * w) 4"
proof (rule reversedI)
  fix j :: nat assume j: "j < 4"
  from assms(2) have "w = 0 \<or> w = 1 \<or> w = 2 \<or> w = 3 \<or> w = 4"
    by arith
  then show "BlobStruct_endian_swap m p ! (p + 4 * w + j) = m ! (p + 4 * w + (4 - 1 - j))"
  proof (elim disjE)
    assume w: "w = 0"
    have "BlobStruct_endian_swap m p ! (p + j) = swap_u32 m p ! (p + j)"
      using j by (simp add: BlobStruct_endian_swap_def swap_u32_nth_out)
    also have "\<dots> = m ! (p + (3 - j))"
      using assms(1) j by (intro swap_u32_nth_in) simp_all
    finally show ?thesis
      using w by simp
  next
    assume w: "w = 1"
    have "BlobStruct_endian_swap m p ! (p + 4 + j) = swap_u32 (swap_u32 m p) (p + 4) ! (p + 4 + j)"
      using j by (simp add: BlobStruct_endian_swap_def swap_u32_nth_out)
    also have "\<dots> = swap_u32 m p ! (p + 4 + (3 - j))"
      using assms(1) j by (intro swap_u32_nth_in) simp_all
    also have "\<dots> = m ! (p + 4 + (3 - j))"
      by (simp add: swap_u32_nth_out)
    finally show ?thesis
      using w by simp
  next
    assume w: "w = 2"
    have "BlobStruct_endian_swap m p ! (p + 8 + j)
        = swap_u32 (swap_u32 (swap_u32 m p) (p + 4)) (p + 8) ! (p + 8 + j)"
      using j by (simp add: BlobStruct_endian_swap_def swap_u32_nth_out)
    also have "\<dots> = swap_u32 (swap_u32 m p) (p + 4) ! (p + 8 + (3 - j))"
      using assms(1) j by (intro swap_u32_nth_in) simp_all
    also have "\<dots> = m ! (p + 8 + (3 - j))"
      by (simp add: swap_u32_nth_out)
    finally show ?thesis
      using w by simp
  next
    assume w: "w = 3"
    have "BlobStruct_endian_swap m p ! (p + 12 + j)
        = swap_u32 (swap_u32 (swap_u32 (swap_u32 m p) (p + 4)) (p + 8)) (p + 12) ! (p + 12 + j)"
      using j by (simp add: BlobStruct_endian_swap_def swap_u32_nth_out)
    also have "\<dots> = swap_u32 (swap_u32 (swap_u32 m p) (p + 4)) (p + 8) ! (p + 12 + (3 - j))"
      using assms(1) j by (intro swap_u32_nth_in) simp_all
    also have "\<dots> = m ! (p + 12 + (3 - j))"
      by (simp add: swap_u32_nth_out)
    finally show ?thesis
      using w by simp
  next
    assume w: "w = 4"
    have "BlobStruct_endian_swap m p ! (p + 16 + j)
        = swap_u32 (swap_u32 (swap_u32 (swap_u32 m p) (p + 4)) (p + 8)) (p + 12) ! (p + 16 + (3 - j))"
      unfolding BlobStruct_endian_swap_def
      using assms(1) j by (intro swap_u32_nth_in) simp_all
    also have "\<dots> = m ! (p + 16 + (3 - j))"
      by (simp add: swap_u32_nth_out)
    finally show ?thesis
      using w by simp
  qed
qed (use assms in simp_all)

section \<open>The blocks of the records\<close>

text \<open>
  The blocks that the records of decoded structures occupy, as pairs of an address and a
  size: a structure record is five 32-bit words, a field record three, a constant record
  one word and the eight bytes of the value.
\<close>

fun field_blocks :: "nat \<Rightarrow> nat \<Rightarrow> (nat \<times> nat) list" where
  "field_blocks p 0 = []"
| "field_blocks p (Suc n) = [(p, 4), (p + 4, 4), (p + 8, 4)] @ field_blocks (p + 12) n"

fun constant_blocks :: "nat \<Rightarrow> nat \<Rightarrow> (nat \<times> nat) list" where
  "constant_blocks p 0 = []"
| "constant_blocks p (Suc n) = [(p, 4), (p + 4, 8)] @ constant_blocks (p + 12) n"

definition struct_size :: "Structure \<Rightarrow> nat" where
  "struct_size s = 20 + length (fields_v s) * 12 + length (constants_v s) * 12"

definition struct_blocks :: "nat \<Rightarrow> Structure \<Rightarrow> (nat \<times> nat) list" where
  "struct_blocks p s =
     [(p, 4), (p + 4, 4), (p + 8, 4), (p + 12, 4), (p + 16, 4)]
     @ field_blocks (p + 20) (length (fields_v s))
     @ constant_blocks (p + 20 + length (fields_v s) * 12) (length (constants_v s))"

fun record_blocks :: "nat \<Rightarrow> Structure list \<Rightarrow> (nat \<times> nat) list" where
  "record_blocks p [] = []"
| "record_blocks p (s # ss) = struct_blocks p s @ record_blocks (p + struct_size s) ss"

lemma field_blocks_bounds:
  "(q, n) \<in> set (field_blocks p k) \<Longrightarrow> p \<le> q \<and> q + n \<le> p + k * 12"
  by (induction k arbitrary: p) fastforce+

lemma constant_blocks_bounds:
  "(q, n) \<in> set (constant_blocks p k) \<Longrightarrow> p \<le> q \<and> q + n \<le> p + k * 12"
  by (induction k arbitrary: p) fastforce+

lemma struct_blocks_bounds:
  "(q, n) \<in> set (struct_blocks p s) \<Longrightarrow> p \<le> q \<and> q + n \<le> p + struct_size s"
  by (fastforce simp: struct_blocks_def struct_size_def
      dest: field_blocks_bounds constant_blocks_bounds)

lemma record_blocks_bounds:
  "(q, n) \<in> set (record_blocks p ss) \<Longrightarrow> p \<le> q"
  by (induction ss arbitrary: p) (fastforce dest: struct_blocks_bounds)+

lemma read_fields_upper:
  "read_fields swapsNeeded e stringDataStart blobStruct m currentStruct fieldCount = Inr (fs, cur, mf)
   \<Longrightarrow> \<forall>k. cur \<le> k \<longrightarrow> mf ! k = m ! k"
proof (induction swapsNeeded e stringDataStart blobStruct m currentStruct fieldCount
    arbitrary: fs cur mf rule: read_fields.induct)
  case (1 swapsNeeded e stringDataStart blobStruct m currentStruct fieldCount)
  show ?case
  proof (cases "fieldCount \<le> BlobStruct_fieldCount e m blobStruct")
    case False
    with "1.prems" show ?thesis
      by (simp add: read_fields_done)
  next
    case True
    from True "1.prems" obtain field m' fs' where
      d: "decode_field swapsNeeded e stringDataStart m currentStruct = Inr (field, m')" and
      r: "read_fields swapsNeeded e stringDataStart blobStruct m'
            (currentStruct + sizeof_BlobField) (fieldCount + 1) = Inr (fs', cur, mf)"
      by (rule read_fields_step)
    have "\<forall>k. cur \<le> k \<longrightarrow> mf ! k = m' ! k"
      by (rule "1.IH" [OF True d refl r])
    with decode_field_frame [OF d] read_fields_Inr [OF r] show ?thesis
      by auto
  qed
qed

lemma read_constants_upper:
  "read_constants swapsNeeded e stringDataStart blobStruct m currentStruct constCount = Inr (cs, cur, mf)
   \<Longrightarrow> \<forall>k. cur \<le> k \<longrightarrow> mf ! k = m ! k"
proof (induction swapsNeeded e stringDataStart blobStruct m currentStruct constCount
    arbitrary: cs cur mf rule: read_constants.induct)
  case (1 swapsNeeded e stringDataStart blobStruct m currentStruct constCount)
  show ?case
  proof (cases "constCount \<le> BlobStruct_constCount e m blobStruct")
    case False
    with "1.prems" show ?thesis
      by (simp add: read_constants_done)
  next
    case True
    from True "1.prems" obtain c m' cs' where
      d: "decode_constant swapsNeeded e stringDataStart m currentStruct = Inr (c, m')" and
      r: "read_constants swapsNeeded e stringDataStart blobStruct m'
            (currentStruct + sizeof_BlobConstant) (constCount + 1) = Inr (cs', cur, mf)"
      by (rule read_constants_step)
    have "\<forall>k. cur \<le> k \<longrightarrow> mf ! k = m' ! k"
      by (rule "1.IH" [OF True d refl r])
    with decode_constant_frame [OF d] read_constants_Inr [OF r] show ?thesis
      by auto
  qed
qed

lemma read_struct_upper:
  assumes "read_struct swapsNeeded e stringDataStart m currentStruct = Inr (s, cur, mf)"
  shows "\<forall>k. cur \<le> k \<longrightarrow> mf ! k = m ! k"
proof -
  from assms obtain builtStruct fs cur2 m2 cs where
    f: "read_fields swapsNeeded e stringDataStart currentStruct
       (if swapsNeeded then BlobStruct_endian_swap m currentStruct else m)
       (currentStruct + sizeof_BlobStruct) 1 = Inr (fs, cur2, m2)" and
    c: "read_constants swapsNeeded e stringDataStart currentStruct m2 cur2 1 = Inr (cs, cur, mf)"
    by (rule read_struct_parts)
  from read_fields_Inr [OF f] read_constants_Inr [OF c]
  have le: "currentStruct + 20 \<le> cur2" "cur2 \<le> cur"
    by (simp_all add: sizeof_BlobStruct_def)
  from read_fields_upper [OF f] read_constants_upper [OF c] le show ?thesis
    by (auto simp: BlobStruct_endian_swap_nth_out)
qed

lemma read_structs_upper:
  "read_structs swapsNeeded e stringDataStart structureCount_hdr m currentStruct structCount
     = Inr (ss, curf, mf)
   \<Longrightarrow> currentStruct \<le> curf \<and> (\<forall>k. curf \<le> k \<longrightarrow> mf ! k = m ! k)"
proof (induction swapsNeeded e stringDataStart structureCount_hdr m currentStruct structCount
    arbitrary: ss curf mf rule: read_structs.induct)
  case (1 swapsNeeded e stringDataStart structureCount_hdr m currentStruct structCount)
  show ?case
  proof (cases "structCount \<le> structureCount_hdr")
    case False
    with "1.prems" show ?thesis
      by (simp add: read_structs_done)
  next
    case True
    from True "1.prems" obtain s cur m' ss' where
      d: "read_struct swapsNeeded e stringDataStart m currentStruct = Inr (s, cur, m')" and
      r: "read_structs swapsNeeded e stringDataStart structureCount_hdr m' cur (structCount + 1)
            = Inr (ss', curf, mf)"
      by (rule read_structs_step)
    have "cur \<le> curf \<and> (\<forall>k. curf \<le> k \<longrightarrow> mf ! k = m' ! k)"
      by (rule "1.IH" [OF True d refl refl r])
    with read_struct_upper [OF d] read_struct_Inr [OF d] show ?thesis
      by auto
  qed
qed

lemma read_fields_blocks:
  "read_fields True e stringDataStart blobStruct m currentStruct fieldCount = Inr (fs, cur, mf)
   \<Longrightarrow> \<forall>b\<in>set (field_blocks currentStruct (length fs)). reversed m mf (fst b) (snd b)"
proof (induction True e stringDataStart blobStruct m currentStruct fieldCount
    arbitrary: fs cur mf rule: read_fields.induct)
  case (1 e stringDataStart blobStruct m currentStruct fieldCount)
  show ?case
  proof (cases "fieldCount \<le> BlobStruct_fieldCount e m blobStruct")
    case False
    with "1.prems" show ?thesis
      by (simp add: read_fields_done)
  next
    case True
    from True "1.prems" obtain field m' fs' where
      d: "decode_field True e stringDataStart m currentStruct = Inr (field, m')" and
      r: "read_fields True e stringDataStart blobStruct m'
            (currentStruct + sizeof_BlobField) (fieldCount + 1) = Inr (fs', cur, mf)" and
      fs: "fs = field # fs'"
      by (rule read_fields_step)
    have m': "m' = BlobField_endian_swap m currentStruct"
      using decode_field_memory [OF d] by simp
    have len: "currentStruct + 12 \<le> length m" "length m' = length m"
      using decode_field_Inr [OF d] by (simp_all add: sizeof_BlobField_def)
    have lenf: "length mf = length m'"
      using read_fields_Inr [OF r] by simp
    have low: "mf ! k = m' ! k" if "k < currentStruct + 12" for k
      using read_fields_frame [OF r] that by (simp add: sizeof_BlobField_def)
    have ih: "\<forall>b\<in>set (field_blocks (currentStruct + 12) (length fs')). reversed m' mf (fst b) (snd b)"
      using "1.hyps" [OF True d refl r] by (simp add: sizeof_BlobField_def)
    have tr: "reversed m mf q n" if "reversed m m' q n" "q + n \<le> currentStruct + 12" for q n
      using that(1)
    proof (rule reversed_after)
      show "mf ! k = m' ! k" if "k < q + n" for k
        using that \<open>q + n \<le> currentStruct + 12\<close> by (intro low) simp
    qed (rule lenf)
    have first: "reversed m mf currentStruct 4" "reversed m mf (currentStruct + 4) 4"
      "reversed m mf (currentStruct + 8) 4"
      using reversed_BlobField_endian_swap [OF len(1)]
      by (simp_all add: m' [symmetric] tr)
    have rest: "reversed m mf q n" if "(q, n) \<in> set (field_blocks (currentStruct + 12) (length fs'))" for q n
    proof (rule reversed_before)
      from ih that show "reversed m' mf q n"
        by force
      from field_blocks_bounds [OF that] have "currentStruct + 12 \<le> q"
        by simp
      then show "m ! k = m' ! k" if "q \<le> k" for k
        using that by (simp add: m' BlobField_endian_swap_nth_out)
      show "length m = length m'"
        using len by simp
    qed
    from first rest show ?thesis
      by (auto simp: fs)
  qed
qed

lemma read_constants_blocks:
  "read_constants True e stringDataStart blobStruct m currentStruct constCount = Inr (cs, cur, mf)
   \<Longrightarrow> \<forall>b\<in>set (constant_blocks currentStruct (length cs)). reversed m mf (fst b) (snd b)"
proof (induction True e stringDataStart blobStruct m currentStruct constCount
    arbitrary: cs cur mf rule: read_constants.induct)
  case (1 e stringDataStart blobStruct m currentStruct constCount)
  show ?case
  proof (cases "constCount \<le> BlobStruct_constCount e m blobStruct")
    case False
    with "1.prems" show ?thesis
      by (simp add: read_constants_done)
  next
    case True
    from True "1.prems" obtain c m' cs' where
      d: "decode_constant True e stringDataStart m currentStruct = Inr (c, m')" and
      r: "read_constants True e stringDataStart blobStruct m'
            (currentStruct + sizeof_BlobConstant) (constCount + 1) = Inr (cs', cur, mf)" and
      cs: "cs = c # cs'"
      by (rule read_constants_step)
    have m': "m' = BlobConstant_endian_swap m currentStruct"
      using decode_constant_memory [OF d] by simp
    have len: "currentStruct + 12 \<le> length m" "length m' = length m"
      using decode_constant_Inr [OF d] by (simp_all add: sizeof_BlobConstant_def)
    have lenf: "length mf = length m'"
      using read_constants_Inr [OF r] by simp
    have low: "mf ! k = m' ! k" if "k < currentStruct + 12" for k
      using read_constants_frame [OF r] that by (simp add: sizeof_BlobConstant_def)
    have ih: "\<forall>b\<in>set (constant_blocks (currentStruct + 12) (length cs')). reversed m' mf (fst b) (snd b)"
      using "1.hyps" [OF True d refl r] by (simp add: sizeof_BlobConstant_def)
    have tr: "reversed m mf q n" if "reversed m m' q n" "q + n \<le> currentStruct + 12" for q n
      using that(1)
    proof (rule reversed_after)
      show "mf ! k = m' ! k" if "k < q + n" for k
        using that \<open>q + n \<le> currentStruct + 12\<close> by (intro low) simp
    qed (rule lenf)
    have first: "reversed m mf currentStruct 4" "reversed m mf (currentStruct + 4) 8"
      using reversed_BlobConstant_endian_swap [OF len(1)]
      by (simp_all add: m' [symmetric] tr)
    have rest: "reversed m mf q n" if "(q, n) \<in> set (constant_blocks (currentStruct + 12) (length cs'))" for q n
    proof (rule reversed_before)
      from ih that show "reversed m' mf q n"
        by force
      from constant_blocks_bounds [OF that] have "currentStruct + 12 \<le> q"
        by simp
      then show "m ! k = m' ! k" if "q \<le> k" for k
        using that by (simp add: m' BlobConstant_endian_swap_nth_out)
      show "length m = length m'"
        using len by simp
    qed
    from first rest show ?thesis
      by (auto simp: cs)
  qed
qed

lemma read_struct_size:
  assumes "read_struct swapsNeeded e stringDataStart m currentStruct = Inr (s, cur, mf)"
  shows "cur = currentStruct + struct_size s"
  using read_struct_cursor [OF assms]
  by (simp add: struct_size_def sizeof_BlobStruct_def sizeof_BlobField_def sizeof_BlobConstant_def)

lemma read_struct_blocks:
  assumes "read_struct True e stringDataStart m currentStruct = Inr (s, cur, mf)"
  shows "\<forall>b\<in>set (struct_blocks currentStruct s). reversed m mf (fst b) (snd b)"
proof -
  define m1 where "m1 = BlobStruct_endian_swap m currentStruct"
  obtain builtStruct fs cur2 m2 cs where
    len: "currentStruct + sizeof_BlobStruct \<le> length m" and
    f: "read_fields True e stringDataStart currentStruct m1
       (currentStruct + sizeof_BlobStruct) 1 = Inr (fs, cur2, m2)" and
    c: "read_constants True e stringDataStart currentStruct m2 cur2 1 = Inr (cs, cur, mf)" and
    s: "s = builtStruct\<lparr>fields_v := fs, constants_v := cs\<rparr>"
    unfolding m1_def by (rule read_struct_parts [OF assms]) auto
  have len20: "currentStruct + 20 \<le> length m"
    using len by (simp add: sizeof_BlobStruct_def)
  have l1: "length m1 = length m" and l2: "length m2 = length m1" and lf: "length mf = length m2"
    using read_fields_Inr [OF f] read_constants_Inr [OF c] by (simp_all add: m1_def)
  have cur2: "cur2 = currentStruct + 20 + length fs * 12"
    using read_fields_count [OF _ f]
    by (simp add: sizeof_BlobStruct_def sizeof_BlobField_def)
  have low2: "m2 ! k = m1 ! k" if "k < currentStruct + 20" for k
    using read_fields_frame [OF f] that by (simp add: sizeof_BlobStruct_def)
  have lowf: "mf ! k = m2 ! k" if "k < cur2" for k
    using read_constants_frame [OF c] that by simp
  have up2: "m2 ! k = m1 ! k" if "cur2 \<le> k" for k
    using read_fields_upper [OF f] that by simp
  have up1: "m1 ! k = m ! k" if "currentStruct + 20 \<le> k" for k
    using that by (simp add: m1_def BlobStruct_endian_swap_nth_out)
  have head: "reversed m mf (currentStruct + 4 * w) 4" if "w < 5" for w
  proof -
    have "reversed m m1 (currentStruct + 4 * w) 4"
      unfolding m1_def using len20 that by (rule reversed_BlobStruct_endian_swap)
    then have "reversed m m2 (currentStruct + 4 * w) 4"
    proof (rule reversed_after)
      show "m2 ! k = m1 ! k" if "k < currentStruct + 4 * w + 4" for k
        using that \<open>w < 5\<close> by (intro low2) simp
    qed (rule l2)
    then show ?thesis
    proof (rule reversed_after)
      show "mf ! k = m2 ! k" if "k < currentStruct + 4 * w + 4" for k
        using that \<open>w < 5\<close> by (intro lowf) (simp add: cur2)
    qed (rule lf)
  qed
  have fields: "reversed m mf q n"
    if "(q, n) \<in> set (field_blocks (currentStruct + 20) (length fs))" for q n
  proof -
    from field_blocks_bounds [OF that]
    have b: "currentStruct + 20 \<le> q" "q + n \<le> cur2"
      by (simp_all add: cur2)
    from read_fields_blocks [OF f] that have "reversed m1 m2 q n"
      by (force simp: sizeof_BlobStruct_def)
    then have "reversed m m2 q n"
    proof (rule reversed_before)
      show "m ! k = m1 ! k" if "q \<le> k" for k
        using that b by (simp add: up1)
    qed (simp add: l1)
    then show ?thesis
    proof (rule reversed_after)
      show "mf ! k = m2 ! k" if "k < q + n" for k
        using that b by (intro lowf) simp
    qed (rule lf)
  qed
  have cblocks: "reversed m mf q n"
    if "(q, n) \<in> set (constant_blocks (currentStruct + 20 + length fs * 12) (length cs))" for q n
  proof -
    from constant_blocks_bounds [OF that] have b: "cur2 \<le> q"
      by (simp add: cur2)
    from read_constants_blocks [OF c] that have "reversed m2 mf q n"
      by (force simp: cur2)
    then show ?thesis
    proof (rule reversed_before)
      show "m ! k = m2 ! k" if "q \<le> k" for k
        using that b by (simp add: up2 up1 cur2)
    qed (simp add: l1 l2)
  qed
  have h0: "reversed m mf currentStruct 4" and h1: "reversed m mf (currentStruct + 4) 4"
    and h2: "reversed m mf (currentStruct + 8) 4" and h3: "reversed m mf (currentStruct + 12) 4"
    and h4: "reversed m mf (currentStruct + 16) 4"
    using head [of 0] head [of 1] head [of 2] head [of 3] head [of 4] by simp_all
  from h0 h1 h2 h3 h4 fields cblocks show ?thesis
    by (auto simp: struct_blocks_def s)
qed

lemma read_structs_blocks:
  "read_structs True e stringDataStart structureCount_hdr m currentStruct structCount
     = Inr (ss, curf, mf)
   \<Longrightarrow> (\<forall>b\<in>set (record_blocks currentStruct ss). reversed m mf (fst b) (snd b))
     \<and> curf = currentStruct + sum_list (map struct_size ss)"
proof (induction True e stringDataStart structureCount_hdr m currentStruct structCount
    arbitrary: ss curf mf rule: read_structs.induct)
  case (1 e stringDataStart structureCount_hdr m currentStruct structCount)
  show ?case
  proof (cases "structCount \<le> structureCount_hdr")
    case False
    with "1.prems" show ?thesis
      by (simp add: read_structs_done)
  next
    case True
    from True "1.prems" obtain s cur m' ss' where
      d: "read_struct True e stringDataStart m currentStruct = Inr (s, cur, m')" and
      r: "read_structs True e stringDataStart structureCount_hdr m' cur (structCount + 1)
            = Inr (ss', curf, mf)" and
      ss: "ss = s # ss'"
      by (rule read_structs_step)
    have cur: "cur = currentStruct + struct_size s"
      by (rule read_struct_size [OF d])
    have ih: "(\<forall>b\<in>set (record_blocks cur ss'). reversed m' mf (fst b) (snd b))
      \<and> curf = cur + sum_list (map struct_size ss')"
      by (rule "1.hyps" [OF True d refl refl r])
    have l1: "length m' = length m" and lf: "length mf = length m'"
      using read_struct_Inr [OF d] read_structs_frame [OF r] by simp_all
    have first: "reversed m mf q n" if "(q, n) \<in> set (struct_blocks currentStruct s)" for q n
    proof -
      from read_struct_blocks [OF d] that have "reversed m m' q n"
        by force
      then show ?thesis
      proof (rule reversed_after)
        show "mf ! k = m' ! k" if "k < q + n" for k
          using read_structs_frame [OF r] struct_blocks_bounds [OF \<open>(q, n) \<in> set (struct_blocks currentStruct s)\<close>] that
          by (simp add: cur)
      qed (rule lf)
    qed
    have rest: "reversed m mf q n" if "(q, n) \<in> set (record_blocks cur ss')" for q n
    proof (rule reversed_before)
      from ih that show "reversed m' mf q n"
        by force
      show "m ! k = m' ! k" if "q \<le> k" for k
        using read_struct_upper [OF d] record_blocks_bounds [OF \<open>(q, n) \<in> set (record_blocks cur ss')\<close>] that
        by simp
      show "length m = length m'"
        using l1 by simp
    qed
    from first rest ih show ?thesis
      by (auto simp: ss cur)
  qed
qed

lemma read_strings_reversed:
  "read_strings True e stringDataStart stringDataEnd m currentString num = Inr (es, mf)
   \<Longrightarrow> stringDataStart \<le> currentString
   \<Longrightarrow> \<forall>x\<in>set es. reversed m mf (stringDataStart + stringOffset x) 2"
proof (induction True e stringDataStart stringDataEnd m currentString num
    arbitrary: es mf rule: read_strings.induct)
  case (1 e stringDataStart stringDataEnd m currentString num)
  show ?case
  proof (cases "currentString < stringDataEnd")
    case False
    with "1.prems" show ?thesis
      by (simp add: read_strings_done)
  next
    case True
    define m' where "m' = BlobString_endian_swap m currentString"
    define len where "len = load_u16 e m' currentString"
    define cur' where "cur' = currentString + (unat len + sizeof_length + unat (len AND 1))"
    from True "1.prems"(1) obtain es' where
      b: "currentString + sizeof_length \<le> length m" and
      es: "es = \<lparr> stringNum = num, stringOffset = currentString - stringDataStart,
             stringLength = len \<rparr> # es'" and
      r: "read_strings True e stringDataStart stringDataEnd m' cur' (num + 1) = Inr (es', mf)"
      unfolding m'_def len_def cur'_def by (rule read_strings_step [where swapsNeeded = True, simplified])
    have le: "stringDataStart \<le> cur'"
      using "1.prems"(2) by (simp add: cur'_def)
    have adv: "currentString + 2 \<le> cur'"
      by (simp add: cur'_def sizeof_length_def)
    have ih: "\<forall>x\<in>set es'. reversed m' mf (stringDataStart + stringOffset x) 2"
      using "1.hyps" [OF True b, of m' len "len AND 1"] r le
      by (simp add: m'_def len_def cur'_def)
    have later: "\<forall>x\<in>set es'. cur' \<le> stringDataStart + stringOffset x"
      using read_strings_entries [OF r le] by simp
    have lf: "length mf = length m'" and low: "\<forall>k<cur'. mf ! k = m' ! k"
      using read_strings_frame [OF r] by simp_all
    have "reversed m m' currentString 2"
      unfolding m'_def BlobString_endian_swap_def
      using b by (intro reversed_swap_u16) (simp add: sizeof_length_def)
    then have here: "reversed m mf currentString 2"
    proof (rule reversed_after)
      show "mf ! k = m' ! k" if "k < currentString + 2" for k
        using that adv low by simp
    qed (rule lf)
    have rest: "reversed m mf (stringDataStart + stringOffset x) 2" if "x \<in> set es'" for x
    proof (rule reversed_before)
      from ih that show "reversed m' mf (stringDataStart + stringOffset x) 2"
        by blast
      from later that adv have "currentString + 2 \<le> stringDataStart + stringOffset x"
        by fastforce
      then show "m ! k = m' ! k" if "stringDataStart + stringOffset x \<le> k" for k
        using that by (simp add: m'_def BlobString_endian_swap_nth_out)
      show "length m = length m'"
        by (simp add: m'_def)
    qed
    from here rest "1.prems"(2) show ?thesis
      by (auto simp: es)
  qed
qed

section \<open>The lengths stored by the structure walker\<close>

text \<open>
  How the walker reads a string length: \<open>length_read e m lim data len\<close> says that the
  length \<open>len\<close> stored with the string pointer \<open>data\<close> is the 16-bit value that the memory
  \<open>m\<close> holds in the two bytes before \<open>data\<close>, loaded as it stands and zero-extended. It is
  asked only of references at or after the address \<open>lim\<close>.
\<close>

definition length_read :: "endian \<Rightarrow> memory \<Rightarrow> nat \<Rightarrow> nat \<Rightarrow> 32 word \<Rightarrow> bool" where
  "length_read e m lim data len = (lim + 2 \<le> data \<longrightarrow> len = ucast (load_u16 e m (data - 2)))"

definition field_lengths_read :: "endian \<Rightarrow> memory \<Rightarrow> nat \<Rightarrow> Field \<Rightarrow> bool" where
  "field_lengths_read e m lim f =
     (length_read e m lim (field_name f) (field_nameLength f)
      \<and> length_read e m lim (field_type f) (field_typeLength f))"

definition constant_lengths_read :: "endian \<Rightarrow> memory \<Rightarrow> nat \<Rightarrow> Constant \<Rightarrow> bool" where
  "constant_lengths_read e m lim c = length_read e m lim (const_name c) (const_nameLength c)"

definition struct_lengths_read :: "endian \<Rightarrow> memory \<Rightarrow> nat \<Rightarrow> Structure \<Rightarrow> bool" where
  "struct_lengths_read e m lim s =
     (length_read e m lim (name s) (nameLength s)
      \<and> (case superName s of
            None \<Rightarrow> superNameLength s = 0
          | Some q \<Rightarrow> length_read e m lim q (superNameLength s))
      \<and> list_all (field_lengths_read e m lim) (fields_v s)
      \<and> list_all (constant_lengths_read e m lim) (constants_v s))"

lemma length_read_transfer:
  assumes "length_read e m' lim' data len" and "lim' \<le> lim"
    and "\<And>k. lim \<le> k \<Longrightarrow> m ! k = m' ! k"
  shows "length_read e m lim data len"
  unfolding length_read_def
proof
  assume a: "lim + 2 \<le> data"
  then have "load_u16 e m (data - 2) = load_u16 e m' (data - 2)"
    by (intro load_u16_cong assms(3)) simp_all
  with assms(1,2) a show "len = ucast (load_u16 e m (data - 2))"
    by (simp add: length_read_def)
qed

lemma field_lengths_read_transfer:
  assumes "field_lengths_read e m' lim' f" and "lim' \<le> lim"
    and "\<And>k. lim \<le> k \<Longrightarrow> m ! k = m' ! k"
  shows "field_lengths_read e m lim f"
  using assms unfolding field_lengths_read_def
  by (blast intro: length_read_transfer)

lemma constant_lengths_read_transfer:
  assumes "constant_lengths_read e m' lim' c" and "lim' \<le> lim"
    and "\<And>k. lim \<le> k \<Longrightarrow> m ! k = m' ! k"
  shows "constant_lengths_read e m lim c"
  using assms unfolding constant_lengths_read_def
  by (blast intro: length_read_transfer)

lemma struct_lengths_read_transfer:
  assumes "struct_lengths_read e m' lim' s" and "lim' \<le> lim"
    and "\<And>k. lim \<le> k \<Longrightarrow> m ! k = m' ! k"
  shows "struct_lengths_read e m lim s"
proof -
  have f: "field_lengths_read e m lim f" if "field_lengths_read e m' lim' f" for f
    using that assms(2,3) by (rule field_lengths_read_transfer)
  have c: "constant_lengths_read e m lim c" if "constant_lengths_read e m' lim' c" for c
    using that assms(2,3) by (rule constant_lengths_read_transfer)
  have l: "length_read e m lim d len" if "length_read e m' lim' d len" for d len
    using that assms(2,3) by (rule length_read_transfer)
  from assms(1) show ?thesis
    unfolding struct_lengths_read_def
    by (auto simp: list_all_iff intro: f c l split: option.splits)
qed

lemma BlobString_length_read:
  assumes "BlobString_length e m (BLOBSTRING_AT stringDataStart offset) = Inr len"
  shows "length_read e m 0 (BlobString_data (BLOBSTRING_AT stringDataStart offset)) (ucast len)"
  using assms
  by (auto simp: BlobString_length_def BlobString_data_def length_read_def sizeof_length_def
      split: if_splits)

lemma decode_field_lengths:
  assumes "decode_field swapsNeeded e stringDataStart m p = Inr (f, m')"
  shows "field_lengths_read e m' 0 f"
  using assms
  by (auto simp: decode_field_def Let_def field_lengths_read_def
      split: if_splits sum.splits intro: BlobString_length_read)

lemma decode_constant_lengths:
  assumes "decode_constant swapsNeeded e stringDataStart m p = Inr (c, m')"
  shows "constant_lengths_read e m' 0 c"
  using assms
  by (auto simp: decode_constant_def Let_def constant_lengths_read_def
      split: if_splits sum.splits intro: BlobString_length_read)

lemma decode_struct_head_lengths:
  assumes "decode_struct_head e stringDataStart m p = Inr s"
  shows "struct_lengths_read e m 0 s"
  using assms
  by (auto simp: decode_struct_head_def Let_def struct_lengths_read_def
      split: if_splits sum.splits intro: BlobString_length_read)

lemma read_fields_lengths:
  "read_fields swapsNeeded e stringDataStart blobStruct m currentStruct fieldCount = Inr (fs, cur, mf)
   \<Longrightarrow> list_all (field_lengths_read e m cur) fs"
proof (induction swapsNeeded e stringDataStart blobStruct m currentStruct fieldCount
    arbitrary: fs cur mf rule: read_fields.induct)
  case (1 swapsNeeded e stringDataStart blobStruct m currentStruct fieldCount)
  show ?case
  proof (cases "fieldCount \<le> BlobStruct_fieldCount e m blobStruct")
    case False
    with "1.prems" show ?thesis
      by (simp add: read_fields_done)
  next
    case True
    from True "1.prems" obtain field m' fs' where
      d: "decode_field swapsNeeded e stringDataStart m currentStruct = Inr (field, m')" and
      r: "read_fields swapsNeeded e stringDataStart blobStruct m'
            (currentStruct + sizeof_BlobField) (fieldCount + 1) = Inr (fs', cur, mf)" and
      fs: "fs = field # fs'"
      by (rule read_fields_step)
    have ih: "list_all (field_lengths_read e m' cur) fs'"
      by (rule "1.IH" [OF True d refl r])
    have same: "m ! k = m' ! k" if "cur \<le> k" for k
      using decode_field_frame [OF d] read_fields_Inr [OF r] that by simp
    have "field_lengths_read e m cur field"
      using decode_field_lengths [OF d] by (rule field_lengths_read_transfer) (simp_all add: same)
    moreover have "field_lengths_read e m cur f" if "field_lengths_read e m' cur f" for f
      using that by (rule field_lengths_read_transfer) (simp_all add: same)
    ultimately show ?thesis
      using ih by (auto simp: fs list_all_iff)
  qed
qed

lemma read_constants_lengths:
  "read_constants swapsNeeded e stringDataStart blobStruct m currentStruct constCount = Inr (cs, cur, mf)
   \<Longrightarrow> list_all (constant_lengths_read e m cur) cs"
proof (induction swapsNeeded e stringDataStart blobStruct m currentStruct constCount
    arbitrary: cs cur mf rule: read_constants.induct)
  case (1 swapsNeeded e stringDataStart blobStruct m currentStruct constCount)
  show ?case
  proof (cases "constCount \<le> BlobStruct_constCount e m blobStruct")
    case False
    with "1.prems" show ?thesis
      by (simp add: read_constants_done)
  next
    case True
    from True "1.prems" obtain c m' cs' where
      d: "decode_constant swapsNeeded e stringDataStart m currentStruct = Inr (c, m')" and
      r: "read_constants swapsNeeded e stringDataStart blobStruct m'
            (currentStruct + sizeof_BlobConstant) (constCount + 1) = Inr (cs', cur, mf)" and
      cs: "cs = c # cs'"
      by (rule read_constants_step)
    have ih: "list_all (constant_lengths_read e m' cur) cs'"
      by (rule "1.IH" [OF True d refl r])
    have same: "m ! k = m' ! k" if "cur \<le> k" for k
      using decode_constant_frame [OF d] read_constants_Inr [OF r] that by simp
    have "constant_lengths_read e m cur c"
      using decode_constant_lengths [OF d] by (rule constant_lengths_read_transfer) (simp_all add: same)
    moreover have "constant_lengths_read e m cur x" if "constant_lengths_read e m' cur x" for x
      using that by (rule constant_lengths_read_transfer) (simp_all add: same)
    ultimately show ?thesis
      using ih by (auto simp: cs list_all_iff)
  qed
qed

lemma read_struct_lengths:
  assumes "read_struct swapsNeeded e stringDataStart m currentStruct = Inr (s, cur, mf)"
  shows "struct_lengths_read e m cur s"
proof -
  define m1 where "m1 = (if swapsNeeded then BlobStruct_endian_swap m currentStruct else m)"
  obtain builtStruct fs cur2 m2 cs where
    h: "decode_struct_head e stringDataStart m1 currentStruct = Inr builtStruct" and
    f: "read_fields swapsNeeded e stringDataStart currentStruct m1
       (currentStruct + sizeof_BlobStruct) 1 = Inr (fs, cur2, m2)" and
    c: "read_constants swapsNeeded e stringDataStart currentStruct m2 cur2 1 = Inr (cs, cur, mf)" and
    s: "s = builtStruct\<lparr>fields_v := fs, constants_v := cs\<rparr>"
    unfolding m1_def by (rule read_struct_parts [OF assms]) auto
  have le: "currentStruct + 20 \<le> cur2" "cur2 \<le> cur"
    using read_fields_Inr [OF f] read_constants_Inr [OF c] by (simp_all add: sizeof_BlobStruct_def)
  have s1: "m ! k = m1 ! k" if "currentStruct + 20 \<le> k" for k
    using that by (simp add: m1_def BlobStruct_endian_swap_nth_out)
  have s2: "m1 ! k = m2 ! k" if "cur2 \<le> k" for k
    using read_fields_upper [OF f] that by simp
  have head: "struct_lengths_read e m cur builtStruct"
    using decode_struct_head_lengths [OF h]
    by (rule struct_lengths_read_transfer) (use le in \<open>simp_all add: s1\<close>)
  have fl: "list_all (field_lengths_read e m cur) fs"
  proof -
    have "field_lengths_read e m cur x" if "field_lengths_read e m1 cur2 x" for x
      using that by (rule field_lengths_read_transfer) (use le in \<open>simp_all add: s1\<close>)
    with read_fields_lengths [OF f] show ?thesis
      by (auto simp: list_all_iff)
  qed
  have cl: "list_all (constant_lengths_read e m cur) cs"
  proof -
    have "constant_lengths_read e m cur x" if "constant_lengths_read e m2 cur x" for x
      using that by (rule constant_lengths_read_transfer) (use le in \<open>simp_all add: s1 s2\<close>)
    with read_constants_lengths [OF c] show ?thesis
      by (auto simp: list_all_iff)
  qed
  from head fl cl show ?thesis
    by (auto simp: s struct_lengths_read_def split: option.splits)
qed

lemma read_structs_lengths:
  "read_structs swapsNeeded e stringDataStart structureCount_hdr m currentStruct structCount
     = Inr (ss, curf, mf)
   \<Longrightarrow> list_all (struct_lengths_read e m curf) ss"
proof (induction swapsNeeded e stringDataStart structureCount_hdr m currentStruct structCount
    arbitrary: ss curf mf rule: read_structs.induct)
  case (1 swapsNeeded e stringDataStart structureCount_hdr m currentStruct structCount)
  show ?case
  proof (cases "structCount \<le> structureCount_hdr")
    case False
    with "1.prems" show ?thesis
      by (simp add: read_structs_done)
  next
    case True
    from True "1.prems" obtain s cur m' ss' where
      d: "read_struct swapsNeeded e stringDataStart m currentStruct = Inr (s, cur, m')" and
      r: "read_structs swapsNeeded e stringDataStart structureCount_hdr m' cur (structCount + 1)
            = Inr (ss', curf, mf)" and
      ss: "ss = s # ss'"
      by (rule read_structs_step)
    have ih: "list_all (struct_lengths_read e m' curf) ss'"
      by (rule "1.IH" [OF True d refl refl r])
    have le: "cur \<le> curf"
      using read_structs_upper [OF r] by simp
    have same: "m ! k = m' ! k" if "cur \<le> k" for k
      using read_struct_upper [OF d] that by simp
    have "struct_lengths_read e m curf s"
      using read_struct_lengths [OF d] le by (rule struct_lengths_read_transfer) simp
    moreover have "struct_lengths_read e m curf x" if "struct_lengths_read e m' curf x" for x
      using that by (rule struct_lengths_read_transfer) (use le in \<open>simp_all add: same\<close>)
    ultimately show ?thesis
      using ih by (auto simp: ss list_all_iff)
  qed
qed

section \<open>The two passes of a run\<close>

lemma read_structs_size:
  "read_structs swapsNeeded e stringDataStart structureCount_hdr m currentStruct structCount
     = Inr (ss, curf, mf)
   \<Longrightarrow> curf = currentStruct + sum_list (map struct_size ss)"
proof (induction swapsNeeded e stringDataStart structureCount_hdr m currentStruct structCount
    arbitrary: ss curf mf rule: read_structs.induct)
  case (1 swapsNeeded e stringDataStart structureCount_hdr m currentStruct structCount)
  show ?case
  proof (cases "structCount \<le> structureCount_hdr")
    case False
    with "1.prems" show ?thesis
      by (simp add: read_structs_done)
  next
    case True
    from True "1.prems" obtain s cur m' ss' where
      d: "read_struct swapsNeeded e stringDataStart m currentStruct = Inr (s, cur, m')" and
      r: "read_structs swapsNeeded e stringDataStart structureCount_hdr m' cur (structCount + 1)
            = Inr (ss', curf, mf)" and
      ss: "ss = s # ss'"
      by (rule read_structs_step)
    have "curf = cur + sum_list (map struct_size ss')"
      by (rule "1.IH" [OF True d refl refl r])
    with read_struct_size [OF d] show ?thesis
      by (simp add: ss)
  qed
qed

text \<open>
  For a report: the address where the string data starts, and the address right after the
  records of the structures decoded, which is where the cursor of the structure loop ends.
\<close>

definition string_start :: "Report \<Rightarrow> nat" where
  "string_start r = sizeof_BlobHeaderV1 + unat (structDataSize (out_blobHdrV1 r))"

definition struct_end :: "Report \<Rightarrow> nat" where
  "struct_end r = sizeof_BlobHeaderV1 + sum_list (map struct_size (out_decoded r))"

lemma main_passes:
  assumes "main e file = Inr r"
  obtains m1 where
    "blobLength_of e file \<le> length file"
    "read_strings (out_swapsNeeded r) e (string_start r) (blobLength_of e file)
       (take (blobLength_of e file) file) (string_start r) 1 = Inr (out_strings r, m1)"
    "read_structs (out_swapsNeeded r) e (string_start r) (structureCount (out_blobHdrV1 r)) m1
       sizeof_BlobHeaderV1 1 = Inr (out_decoded r, struct_end r, out_blobBuffer r)"
proof -
  from assms obtain entries m1 built cur where
    len: "blobLength_of e file \<le> length file" and
    s: "read_strings (out_swapsNeeded r) e (string_start r) (blobLength_of e file)
       (take (blobLength_of e file) file) (string_start r) 1 = Inr (entries, m1)" and
    t: "read_structs (out_swapsNeeded r) e (string_start r) (structureCount (out_blobHdrV1 r)) m1
       sizeof_BlobHeaderV1 1 = Inr (built, cur, out_blobBuffer r)" and
    eq: "out_strings r = entries" "out_decoded r = built"
    unfolding string_start_def by (rule main_Inr)
  have "cur = struct_end r"
    using read_structs_size [OF t] by (simp add: struct_end_def eq)
  with len s t eq that show ?thesis
    by simp
qed

lemma read_fields_inside:
  "read_fields swapsNeeded e stringDataStart blobStruct m currentStruct fieldCount = Inr (fs, cur, mf)
   \<Longrightarrow> currentStruct \<le> length m \<Longrightarrow> cur \<le> length m"
proof (induction swapsNeeded e stringDataStart blobStruct m currentStruct fieldCount
    arbitrary: fs cur mf rule: read_fields.induct)
  case (1 swapsNeeded e stringDataStart blobStruct m currentStruct fieldCount)
  show ?case
  proof (cases "fieldCount \<le> BlobStruct_fieldCount e m blobStruct")
    case False
    with "1.prems" show ?thesis
      by (simp add: read_fields_done)
  next
    case True
    from True "1.prems"(1) obtain f m' fs' where
      d: "decode_field swapsNeeded e stringDataStart m currentStruct = Inr (f, m')" and
      r: "read_fields swapsNeeded e stringDataStart blobStruct m'
            (currentStruct + sizeof_BlobField) (fieldCount + 1) = Inr (fs', cur, mf)"
      by (rule read_fields_step)
    from decode_field_Inr [OF d] have "currentStruct + sizeof_BlobField \<le> length m'"
      by simp
    with "1.IH" [OF True d refl r] decode_field_Inr [OF d] show ?thesis
      by simp
  qed
qed

lemma read_constants_inside:
  "read_constants swapsNeeded e stringDataStart blobStruct m currentStruct constCount = Inr (cs, cur, mf)
   \<Longrightarrow> currentStruct \<le> length m \<Longrightarrow> cur \<le> length m"
proof (induction swapsNeeded e stringDataStart blobStruct m currentStruct constCount
    arbitrary: cs cur mf rule: read_constants.induct)
  case (1 swapsNeeded e stringDataStart blobStruct m currentStruct constCount)
  show ?case
  proof (cases "constCount \<le> BlobStruct_constCount e m blobStruct")
    case False
    with "1.prems" show ?thesis
      by (simp add: read_constants_done)
  next
    case True
    from True "1.prems"(1) obtain c m' cs' where
      d: "decode_constant swapsNeeded e stringDataStart m currentStruct = Inr (c, m')" and
      r: "read_constants swapsNeeded e stringDataStart blobStruct m'
            (currentStruct + sizeof_BlobConstant) (constCount + 1) = Inr (cs', cur, mf)"
      by (rule read_constants_step)
    from decode_constant_Inr [OF d] have "currentStruct + sizeof_BlobConstant \<le> length m'"
      by simp
    with "1.IH" [OF True d refl r] decode_constant_Inr [OF d] show ?thesis
      by simp
  qed
qed

lemma read_struct_inside:
  assumes "read_struct swapsNeeded e stringDataStart m currentStruct = Inr (s, cur, mf)"
  shows "cur \<le> length m"
proof -
  obtain builtStruct fs cur2 m2 cs where
    len: "currentStruct + sizeof_BlobStruct \<le> length m" and
    f: "read_fields swapsNeeded e stringDataStart currentStruct
         (if swapsNeeded then BlobStruct_endian_swap m currentStruct else m)
         (currentStruct + sizeof_BlobStruct) 1 = Inr (fs, cur2, m2)" and
    c: "read_constants swapsNeeded e stringDataStart currentStruct m2 cur2 1 = Inr (cs, cur, mf)"
    by (rule read_struct_parts [OF assms]) auto
  have l: "length (if swapsNeeded then BlobStruct_endian_swap m currentStruct else m) = length m"
    by simp
  from read_fields_inside [OF f] len have "cur2 \<le> length m"
    unfolding l by simp
  with read_fields_Inr [OF f] have "cur2 \<le> length m2"
    unfolding l by simp
  from read_constants_inside [OF c this] read_fields_Inr [OF f] show ?thesis
    unfolding l by simp
qed

lemma read_structs_inside:
  "read_structs swapsNeeded e stringDataStart structureCount_hdr m currentStruct structCount
     = Inr (ss, curf, mf)
   \<Longrightarrow> currentStruct \<le> length m \<Longrightarrow> curf \<le> length m"
proof (induction swapsNeeded e stringDataStart structureCount_hdr m currentStruct structCount
    arbitrary: ss curf mf rule: read_structs.induct)
  case (1 swapsNeeded e stringDataStart structureCount_hdr m currentStruct structCount)
  show ?case
  proof (cases "structCount \<le> structureCount_hdr")
    case False
    with "1.prems" show ?thesis
      by (simp add: read_structs_done)
  next
    case True
    from True "1.prems"(1) obtain s cur m' ss' where
      d: "read_struct swapsNeeded e stringDataStart m currentStruct = Inr (s, cur, m')" and
      r: "read_structs swapsNeeded e stringDataStart structureCount_hdr m' cur (structCount + 1)
            = Inr (ss', curf, mf)"
      by (rule read_structs_step)
    from read_struct_inside [OF d] read_struct_Inr [OF d] have "cur \<le> length m'"
      by simp
    with "1.IH" [OF True d refl refl r] read_struct_Inr [OF d] show ?thesis
      by simp
  qed
qed

text \<open>The blocks of a run of records leave no byte of the run out.\<close>

lemma field_blocks_cover:
  "p \<le> k \<Longrightarrow> k < p + n * 12
   \<Longrightarrow> \<exists>b\<in>set (field_blocks p n). fst b \<le> k \<and> k < fst b + snd b"
proof (induction n arbitrary: p)
  case 0
  then show ?case by simp
next
  case (Suc n)
  show ?case
  proof (cases "k < p + 12")
    case True
    with Suc.prems consider "k < p + 4" | "p + 4 \<le> k" "k < p + 8" | "p + 8 \<le> k"
      by linarith
    then show ?thesis
      using True Suc.prems by cases auto
  next
    case False
    with Suc.prems Suc.IH [of "p + 12"] show ?thesis
      by auto
  qed
qed

lemma constant_blocks_cover:
  "p \<le> k \<Longrightarrow> k < p + n * 12
   \<Longrightarrow> \<exists>b\<in>set (constant_blocks p n). fst b \<le> k \<and> k < fst b + snd b"
proof (induction n arbitrary: p)
  case 0
  then show ?case by simp
next
  case (Suc n)
  show ?case
  proof (cases "k < p + 12")
    case True
    with Suc.prems consider "k < p + 4" | "p + 4 \<le> k"
      by linarith
    then show ?thesis
      using True Suc.prems by cases auto
  next
    case False
    with Suc.prems Suc.IH [of "p + 12"] show ?thesis
      by auto
  qed
qed

lemma struct_blocks_cover:
  assumes "p \<le> k" and "k < p + struct_size s"
  shows "\<exists>b\<in>set (struct_blocks p s). fst b \<le> k \<and> k < fst b + snd b"
proof -
  let ?f = "length (fields_v s) * 12"
  consider "k < p + 4" | "p + 4 \<le> k" "k < p + 8" | "p + 8 \<le> k" "k < p + 12"
    | "p + 12 \<le> k" "k < p + 16" | "p + 16 \<le> k" "k < p + 20"
    | "p + 20 \<le> k" "k < p + 20 + ?f" | "p + 20 + ?f \<le> k"
    by linarith
  then show ?thesis
  proof cases
    case 6
    from field_blocks_cover [OF 6] show ?thesis
      by (auto simp: struct_blocks_def)
  next
    case 7
    with assms(2) have "k < p + 20 + ?f + length (constants_v s) * 12"
      by (simp add: struct_size_def)
    from constant_blocks_cover [OF 7 this] show ?thesis
      by (auto simp: struct_blocks_def)
  qed (use assms in \<open>auto simp: struct_blocks_def\<close>)
qed

lemma record_blocks_cover:
  "p \<le> k \<Longrightarrow> k < p + sum_list (map struct_size ss)
   \<Longrightarrow> \<exists>b\<in>set (record_blocks p ss). fst b \<le> k \<and> k < fst b + snd b"
proof (induction ss arbitrary: p)
  case Nil
  then show ?case by simp
next
  case (Cons s ss)
  show ?case
  proof (cases "k < p + struct_size s")
    case True
    from struct_blocks_cover [OF Cons.prems(1) True] show ?thesis
      by auto
  next
    case False
    with Cons.prems Cons.IH [of "p + struct_size s"] show ?thesis
      by auto
  qed
qed

section \<open>What the swaps change in the buffer\<close>

lemma record_blocks_end:
  "(q, n) \<in> set (record_blocks p ss) \<Longrightarrow> q + n \<le> p + sum_list (map struct_size ss)"
proof (induction ss arbitrary: p)
  case Nil
  then show ?case by simp
next
  case (Cons s ss)
  from Cons.prems consider "(q, n) \<in> set (struct_blocks p s)"
    | "(q, n) \<in> set (record_blocks (p + struct_size s) ss)"
    by auto
  then show ?case
  proof cases
    case 1
    from struct_blocks_bounds [OF 1] show ?thesis
      by simp
  next
    case 2
    from Cons.IH [OF 2] show ?thesis
      by simp
  qed
qed

text \<open>
  C9, as the code has it. The decoding never changes the length of the buffer nor the
  bytes of the header in it, and when no swap is needed it changes no byte at all. When
  swaps are needed, the string pass reverses the two bytes of the length field of every
  string it lists and changes nothing else; then the structure pass reverses, each on its
  own, the five 32-bit words of every structure record, the three 32-bit words of every
  field record, and the 32-bit word and the 64-bit value of every constant record, and
  changes nothing before the first record nor after the last. The blocks leave no byte of
  the records out, and the records lie in the buffer. When the records end where the
  string data starts or before, as the header promises, this describes the buffer left
  by the run directly in terms of the bytes read from the file.
\<close>

theorem buffer_modified_only_by_swaps:
  assumes "main e file = Inr r"
  shows "length (out_blobBuffer r) = blobLength_of e file
       \<and> (\<forall>k. k < sizeof_BlobHeaderV1 \<longrightarrow> out_blobBuffer r ! k = file ! k)
       \<and> (\<not> out_swapsNeeded r \<longrightarrow> out_blobBuffer r = take (blobLength_of e file) file)
       \<and> struct_end r \<le> blobLength_of e file
       \<and> (\<forall>k. sizeof_BlobHeaderV1 \<le> k \<and> k < struct_end r \<longrightarrow>
             (\<exists>b\<in>set (record_blocks sizeof_BlobHeaderV1 (out_decoded r)).
                fst b \<le> k \<and> k < fst b + snd b))
       \<and> (out_swapsNeeded r \<longrightarrow>
             (\<exists>m1. read_strings True e (string_start r) (blobLength_of e file)
                      (take (blobLength_of e file) file) (string_start r) 1
                      = Inr (out_strings r, m1)
                 \<and> read_structs True e (string_start r) (structureCount (out_blobHdrV1 r)) m1
                      sizeof_BlobHeaderV1 1 = Inr (out_decoded r, struct_end r, out_blobBuffer r)
                 \<and> (\<forall>x\<in>set (out_strings r).
                       reversed (take (blobLength_of e file) file) m1
                         (string_start r + stringOffset x) 2)
                 \<and> (\<forall>k. (\<forall>x\<in>set (out_strings r). k \<noteq> string_start r + stringOffset x
                            \<and> k \<noteq> string_start r + stringOffset x + 1)
                       \<longrightarrow> m1 ! k = take (blobLength_of e file) file ! k)
                 \<and> (\<forall>b\<in>set (record_blocks sizeof_BlobHeaderV1 (out_decoded r)).
                       reversed m1 (out_blobBuffer r) (fst b) (snd b))
                 \<and> (\<forall>k. k < sizeof_BlobHeaderV1 \<or> struct_end r \<le> k
                       \<longrightarrow> out_blobBuffer r ! k = m1 ! k)))
       \<and> (out_swapsNeeded r \<and> struct_end r \<le> string_start r \<longrightarrow>
             (\<forall>b\<in>set (record_blocks sizeof_BlobHeaderV1 (out_decoded r)).
                reversed (take (blobLength_of e file) file) (out_blobBuffer r) (fst b) (snd b))
           \<and> (\<forall>x\<in>set (out_strings r).
                reversed (take (blobLength_of e file) file) (out_blobBuffer r)
                  (string_start r + stringOffset x) 2)
           \<and> (\<forall>k. (k < sizeof_BlobHeaderV1 \<or> struct_end r \<le> k)
                  \<and> (\<forall>x\<in>set (out_strings r). k \<noteq> string_start r + stringOffset x
                         \<and> k \<noteq> string_start r + stringOffset x + 1)
                \<longrightarrow> out_blobBuffer r ! k = take (blobLength_of e file) file ! k))"
proof -
  define buf where "buf = take (blobLength_of e file) file"
  from assms obtain m1 where
    len: "blobLength_of e file \<le> length file" and
    s: "read_strings (out_swapsNeeded r) e (string_start r) (blobLength_of e file)
       buf (string_start r) 1 = Inr (out_strings r, m1)" and
    t: "read_structs (out_swapsNeeded r) e (string_start r) (structureCount (out_blobHdrV1 r)) m1
       sizeof_BlobHeaderV1 1 = Inr (out_decoded r, struct_end r, out_blobBuffer r)"
    unfolding buf_def by (rule main_passes)
  have ge: "sizeof_BlobHeaderV1 \<le> blobLength_of e file"
    by (rule blobLength_of_ge)
  have lbuf: "length buf = blobLength_of e file"
    using len by (simp add: buf_def)
  have l1: "length m1 = length buf"
    using read_strings_frame [OF s] by simp
  have lf: "length (out_blobBuffer r) = length m1"
    using read_structs_frame [OF t] by simp
  have c1: "length (out_blobBuffer r) = blobLength_of e file"
    using lf l1 lbuf by simp
  have c2: "\<forall>k. k < sizeof_BlobHeaderV1 \<longrightarrow> out_blobBuffer r ! k = file ! k"
    using read_strings_frame [OF s] read_structs_frame [OF t] ge
    by (auto simp: buf_def string_start_def)
  have c3: "\<not> out_swapsNeeded r \<longrightarrow> out_blobBuffer r = buf"
    using read_strings_frame [OF s] read_structs_frame [OF t] by auto
  have c4: "struct_end r \<le> blobLength_of e file"
    using read_structs_inside [OF t] ge l1 lbuf by simp
  have c5: "\<forall>k. sizeof_BlobHeaderV1 \<le> k \<and> k < struct_end r \<longrightarrow>
             (\<exists>b\<in>set (record_blocks sizeof_BlobHeaderV1 (out_decoded r)).
                fst b \<le> k \<and> k < fst b + snd b)"
    using record_blocks_cover [of sizeof_BlobHeaderV1 _ "out_decoded r"]
    by (simp add: struct_end_def)
  have low: "m1 ! k = buf ! k" if "k < string_start r" for k
    using read_strings_frame [OF s] that by simp
  have head: "out_blobBuffer r ! k = m1 ! k" if "k < sizeof_BlobHeaderV1" for k
    using read_structs_frame [OF t] that by simp
  have tail: "out_blobBuffer r ! k = m1 ! k" if "struct_end r \<le> k" for k
    using read_structs_upper [OF t] that by simp
  have others: "m1 ! k = buf ! k"
    if "\<forall>x\<in>set (out_strings r). k \<noteq> string_start r + stringOffset x
                            \<and> k \<noteq> string_start r + stringOffset x + 1" for k
    using read_strings_swapped [OF s le_refl] that by blast
  {
    assume sw: "out_swapsNeeded r"
    from s sw have s': "read_strings True e (string_start r) (blobLength_of e file)
       buf (string_start r) 1 = Inr (out_strings r, m1)"
      by simp
    from t sw have t': "read_structs True e (string_start r) (structureCount (out_blobHdrV1 r)) m1
       sizeof_BlobHeaderV1 1 = Inr (out_decoded r, struct_end r, out_blobBuffer r)"
      by simp
    have strs: "\<forall>x\<in>set (out_strings r). reversed buf m1 (string_start r + stringOffset x) 2"
      by (rule read_strings_reversed [OF s' le_refl])
    have recs: "\<forall>b\<in>set (record_blocks sizeof_BlobHeaderV1 (out_decoded r)).
                       reversed m1 (out_blobBuffer r) (fst b) (snd b)"
      using read_structs_blocks [OF t'] by simp
    have c6: "\<exists>m1. read_strings True e (string_start r) (blobLength_of e file)
                      buf (string_start r) 1 = Inr (out_strings r, m1)
                 \<and> read_structs True e (string_start r) (structureCount (out_blobHdrV1 r)) m1
                      sizeof_BlobHeaderV1 1 = Inr (out_decoded r, struct_end r, out_blobBuffer r)
                 \<and> (\<forall>x\<in>set (out_strings r).
                       reversed buf m1 (string_start r + stringOffset x) 2)
                 \<and> (\<forall>k. (\<forall>x\<in>set (out_strings r). k \<noteq> string_start r + stringOffset x
                            \<and> k \<noteq> string_start r + stringOffset x + 1)
                       \<longrightarrow> m1 ! k = buf ! k)
                 \<and> (\<forall>b\<in>set (record_blocks sizeof_BlobHeaderV1 (out_decoded r)).
                       reversed m1 (out_blobBuffer r) (fst b) (snd b))
                 \<and> (\<forall>k. k < sizeof_BlobHeaderV1 \<or> struct_end r \<le> k
                       \<longrightarrow> out_blobBuffer r ! k = m1 ! k)"
    proof (intro exI [of _ m1] conjI)
      show "\<forall>k. k < sizeof_BlobHeaderV1 \<or> struct_end r \<le> k \<longrightarrow> out_blobBuffer r ! k = m1 ! k"
        using head tail by blast
      show "\<forall>k. (\<forall>x\<in>set (out_strings r). k \<noteq> string_start r + stringOffset x
                            \<and> k \<noteq> string_start r + stringOffset x + 1)
                       \<longrightarrow> m1 ! k = buf ! k"
        using others by blast
    qed (rule s' t' strs recs)+
    {
      assume order: "struct_end r \<le> string_start r"
      have d1: "reversed buf (out_blobBuffer r) (fst b) (snd b)"
        if b: "b \<in> set (record_blocks sizeof_BlobHeaderV1 (out_decoded r))" for b
      proof (rule reversed_before)
        from recs b show "reversed m1 (out_blobBuffer r) (fst b) (snd b)"
          by blast
        from b have "(fst b, snd b) \<in> set (record_blocks sizeof_BlobHeaderV1 (out_decoded r))"
          by simp
        from record_blocks_end [OF this] order
        have e: "fst b + snd b \<le> string_start r"
          by (simp add: struct_end_def)
        show "buf ! k = m1 ! k" if "k < fst b + snd b" for k
          using low [of k] that e by simp
        show "length buf = length m1"
          using l1 by simp
      qed
      have d2: "reversed buf (out_blobBuffer r) (string_start r + stringOffset x) 2"
        if x: "x \<in> set (out_strings r)" for x
      proof (rule reversed_after)
        from strs x show "reversed buf m1 (string_start r + stringOffset x) 2"
          by blast
        show "out_blobBuffer r ! k = m1 ! k" if "string_start r + stringOffset x \<le> k" for k
          using tail [of k] that order by simp
        show "length (out_blobBuffer r) = length m1"
          by (rule lf)
      qed
      have d3: "out_blobBuffer r ! k = buf ! k"
        if "k < sizeof_BlobHeaderV1 \<or> struct_end r \<le> k"
          and "\<forall>x\<in>set (out_strings r). k \<noteq> string_start r + stringOffset x
                         \<and> k \<noteq> string_start r + stringOffset x + 1" for k
        using head [of k] tail [of k] others [of k] that by auto
      from d1 d2 d3 have "(\<forall>b\<in>set (record_blocks sizeof_BlobHeaderV1 (out_decoded r)).
                reversed buf (out_blobBuffer r) (fst b) (snd b))
           \<and> (\<forall>x\<in>set (out_strings r).
                reversed buf (out_blobBuffer r) (string_start r + stringOffset x) 2)
           \<and> (\<forall>k. (k < sizeof_BlobHeaderV1 \<or> struct_end r \<le> k)
                  \<and> (\<forall>x\<in>set (out_strings r). k \<noteq> string_start r + stringOffset x
                         \<and> k \<noteq> string_start r + stringOffset x + 1)
                \<longrightarrow> out_blobBuffer r ! k = buf ! k)"
        by blast
    }
    note c7 = this
    note c6 c7
  }
  note sw = this
  from c1 c2 c3 c4 c5 sw show ?thesis
    unfolding buf_def by blast
qed

lemma example_blob_native:
  "case main LittleEndian example_blob of
     Inl err \<Rightarrow> False
   | Inr r \<Rightarrow> \<not> out_swapsNeeded r \<and> blobLength_of LittleEndian example_blob = 112
       \<and> length example_blob = 112"
  by code_simp

lemma example_blob_swapped_run:
  "case main BigEndian example_blob of
     Inl err \<Rightarrow> False
   | Inr r \<Rightarrow> out_swapsNeeded r \<and> blobLength_of BigEndian example_blob = 112
       \<and> length example_blob = 112 \<and> string_start r = 96 \<and> struct_end r = 96
       \<and> map stringOffset (out_strings r) = [0, 4, 8, 12]
       \<and> record_blocks sizeof_BlobHeaderV1 (out_decoded r)
           = [(20, 4), (24, 4), (28, 4), (32, 4), (36, 4),
              (40, 4), (44, 4), (48, 4), (52, 4), (56, 4), (60, 4),
              (64, 4), (68, 8),
              (76, 4), (80, 4), (84, 4), (88, 4), (92, 4)]"
  by code_simp

theorem buffer_modified_only_by_swaps_witness:
  "(case main LittleEndian example_blob of
     Inl err \<Rightarrow> False
   | Inr r \<Rightarrow> \<not> out_swapsNeeded r \<and> out_blobBuffer r = example_blob)
   \<and> (case main BigEndian example_blob of
     Inl err \<Rightarrow> False
   | Inr r \<Rightarrow> out_swapsNeeded r \<and> struct_end r \<le> string_start r
       \<and> length (out_blobBuffer r) = 112
       \<and> reversed example_blob (out_blobBuffer r) 20 4
       \<and> reversed example_blob (out_blobBuffer r) 48 4
       \<and> reversed example_blob (out_blobBuffer r) 68 8
       \<and> reversed example_blob (out_blobBuffer r) 100 2
       \<and> out_blobBuffer r ! 102 = example_blob ! 102)"
proof (rule conjI)
  show "case main LittleEndian example_blob of
     Inl err \<Rightarrow> False
   | Inr r \<Rightarrow> \<not> out_swapsNeeded r \<and> out_blobBuffer r = example_blob"
  proof (cases "main LittleEndian example_blob")
    case (Inl err)
    with example_blob_native show ?thesis
      by simp
  next
    case (Inr r)
    with example_blob_native buffer_modified_only_by_swaps [OF Inr] show ?thesis
      by simp
  qed
next
  show "case main BigEndian example_blob of
     Inl err \<Rightarrow> False
   | Inr r \<Rightarrow> out_swapsNeeded r \<and> struct_end r \<le> string_start r
       \<and> length (out_blobBuffer r) = 112
       \<and> reversed example_blob (out_blobBuffer r) 20 4
       \<and> reversed example_blob (out_blobBuffer r) 48 4
       \<and> reversed example_blob (out_blobBuffer r) 68 8
       \<and> reversed example_blob (out_blobBuffer r) 100 2
       \<and> out_blobBuffer r ! 102 = example_blob ! 102"
  proof (cases "main BigEndian example_blob")
    case (Inl err)
    with example_blob_swapped_run show ?thesis
      by simp
  next
    case (Inr r)
    with example_blob_swapped_run have
      sw: "out_swapsNeeded r" and bl: "blobLength_of BigEndian example_blob = 112" and
      len: "length example_blob = 112" and ss: "string_start r = 96" and se: "struct_end r = 96" and
      offs: "map stringOffset (out_strings r) = [0, 4, 8, 12]" and
      blocks: "record_blocks sizeof_BlobHeaderV1 (out_decoded r)
           = [(20, 4), (24, 4), (28, 4), (32, 4), (36, 4),
              (40, 4), (44, 4), (48, 4), (52, 4), (56, 4), (60, 4),
              (64, 4), (68, 8),
              (76, 4), (80, 4), (84, 4), (88, 4), (92, 4)]"
      by simp_all
    have buf: "take (blobLength_of BigEndian example_blob) example_blob = example_blob"
      by (simp add: bl len)
    have offs': "stringOffset ` set (out_strings r) = {0, 4, 8, 12}"
      using arg_cong [OF offs, of set] by simp
    note t = buffer_modified_only_by_swaps [OF Inr, unfolded buf]
    from t have l: "length (out_blobBuffer r) = 112"
      by (simp add: bl)
    from t sw ss se have
      recs: "\<forall>b\<in>set (record_blocks sizeof_BlobHeaderV1 (out_decoded r)).
                reversed example_blob (out_blobBuffer r) (fst b) (snd b)" and
      strs: "\<forall>x\<in>set (out_strings r).
                reversed example_blob (out_blobBuffer r) (string_start r + stringOffset x) 2" and
      rest: "\<forall>k. (k < sizeof_BlobHeaderV1 \<or> struct_end r \<le> k)
                  \<and> (\<forall>x\<in>set (out_strings r). k \<noteq> string_start r + stringOffset x
                         \<and> k \<noteq> string_start r + stringOffset x + 1)
                \<longrightarrow> out_blobBuffer r ! k = example_blob ! k"
      by simp_all
    from recs have r1: "reversed example_blob (out_blobBuffer r) 20 4"
      and r2: "reversed example_blob (out_blobBuffer r) 48 4"
      and r3: "reversed example_blob (out_blobBuffer r) 68 8"
      unfolding blocks by simp_all
    from offs' obtain x where "x \<in> set (out_strings r)" "stringOffset x = 4"
      by (metis imageE insertI1 insert_commute)
    with strs ss have r4: "reversed example_blob (out_blobBuffer r) 100 2"
      by fastforce
    have "\<forall>x\<in>set (out_strings r). (102::nat) \<noteq> string_start r + stringOffset x
                         \<and> 102 \<noteq> string_start r + stringOffset x + 1"
    proof
      fix x assume "x \<in> set (out_strings r)"
      with offs' have "stringOffset x \<in> {0, 4, 8, 12}"
        by blast
      then show "(102::nat) \<noteq> string_start r + stringOffset x
                         \<and> 102 \<noteq> string_start r + stringOffset x + 1"
        by (auto simp: ss)
    qed
    with rest se have r5: "out_blobBuffer r ! 102 = example_blob ! 102"
      by simp
    from Inr sw ss se l r1 r2 r3 r4 r5 show ?thesis
      by simp
  qed
qed

lemma example_blob_swapped:
  "case main BigEndian example_blob of
     Inl err \<Rightarrow> False
   | Inr r \<Rightarrow> out_swapsNeeded r
       \<and> out_blobBuffer r \<noteq> take (blobLength_of BigEndian example_blob) example_blob"
  by code_simp

text \<open>The claim as stated fails: read on a big-endian host, the example blob is changed in memory.\<close>

theorem buffer_read_only_counterexample:
  "\<not> (\<forall>e file r. main e file = Inr r \<longrightarrow> out_blobBuffer r = take (blobLength_of e file) file)"
proof
  assume a: "\<forall>e file r. main e file = Inr r \<longrightarrow> out_blobBuffer r = take (blobLength_of e file) file"
  show False
  proof (cases "main BigEndian example_blob")
    case (Inl err)
    with example_blob_swapped show False by simp
  next
    case (Inr r)
    with a have "out_blobBuffer r = take (blobLength_of BigEndian example_blob) example_blob"
      by blast
    with example_blob_swapped Inr show False by simp
  qed
qed

section \<open>The string lengths after the enumeration\<close>

lemma read_strings_lengths:
  assumes "read_strings swapsNeeded e stringDataStart stringDataEnd m currentString num = Inr (es, mf)"
    and "stringDataStart \<le> currentString"
  shows "chained (currentString - stringDataStart) es
     \<and> (\<forall>x\<in>set es. stringLength x = load_u16 e mf (stringDataStart + stringOffset x)
           \<and> load_u16 e mf (stringDataStart + stringOffset x)
             = load_u16 (if swapsNeeded then opposite e else e) m (stringDataStart + stringOffset x))
     \<and> (\<forall>k. (\<forall>x\<in>set es. k \<noteq> stringDataStart + stringOffset x
               \<and> k \<noteq> stringDataStart + stringOffset x + 1) \<longrightarrow> mf ! k = m ! k)
     \<and> (\<forall>offset. unat offset \<in> stringOffset ` set es \<longrightarrow>
           BlobString_length e mf (BLOBSTRING_AT stringDataStart offset)
             = Inr (load_u16 (if swapsNeeded then opposite e else e) m
                      (stringDataStart + unat offset)))
     \<and> (\<forall>offset. stringDataStart + unat offset + 2 \<le> length m
           \<and> (\<forall>x\<in>set es. unat offset + 2 \<le> stringOffset x \<or> stringOffset x + 2 \<le> unat offset)
           \<longrightarrow> BlobString_length e mf (BLOBSTRING_AT stringDataStart offset)
             = Inr (load_u16 e m (stringDataStart + unat offset)))"
proof -
  note ent = read_strings_entries [OF assms]
  note sw = read_strings_swapped [OF assms]
  note fr = read_strings_frame [OF assms(1)]
  have visited: "BlobString_length e mf (BLOBSTRING_AT stringDataStart offset)
             = Inr (load_u16 (if swapsNeeded then opposite e else e) m
                      (stringDataStart + unat offset))"
    if "unat offset \<in> stringOffset ` set es" for offset
  proof -
    from that obtain x where x: "x \<in> set es" "unat offset = stringOffset x"
      by auto
    with ent have "stringDataStart + unat offset + 2 \<le> length m"
      by simp
    with fr have "BlobString_length e mf (BLOBSTRING_AT stringDataStart offset)
       = Inr (load_u16 e mf (stringDataStart + unat offset))"
      by (simp add: BlobString_length_def BLOBSTRING_AT_def sizeof_length_def)
    with sw x show ?thesis
      by simp
  qed
  have unvisited: "BlobString_length e mf (BLOBSTRING_AT stringDataStart offset)
             = Inr (load_u16 e m (stringDataStart + unat offset))"
    if b: "stringDataStart + unat offset + 2 \<le> length m"
      and d: "\<forall>x\<in>set es. unat offset + 2 \<le> stringOffset x \<or> stringOffset x + 2 \<le> unat offset"
    for offset
  proof -
    have "mf ! k = m ! k" if "k = stringDataStart + unat offset \<or> k = stringDataStart + unat offset + 1" for k
    proof -
      from d that have "\<forall>x\<in>set es. k \<noteq> stringDataStart + stringOffset x
               \<and> k \<noteq> stringDataStart + stringOffset x + 1"
        by fastforce
      with sw show ?thesis
        by blast
    qed
    then have "load_u16 e mf (stringDataStart + unat offset) = load_u16 e m (stringDataStart + unat offset)"
      by (intro load_u16_cong) simp_all
    with b fr show ?thesis
      by (simp add: BlobString_length_def BLOBSTRING_AT_def sizeof_length_def)
  qed
  from ent sw visited unvisited show ?thesis
    by (simp only: simp_thms) blast
qed

text \<open>
  C10. Of a run that ends well, with the memory \<open>m1\<close> the string pass hands to the
  structure pass. The entries listed tile the string data from its start to the end of
  the blob or beyond, so no length field of the region is left out and no two overlap.
  The length field of every entry holds in \<open>m1\<close> the value stored in the file read in the
  byte order of the file: its two bytes are reversed once when swaps are needed and
  untouched otherwise, and every other byte of \<open>m1\<close> is as it was read. A lookup
  \<^verbatim>\<open>BLOBSTRING_AT(offset)->length\<close> loads the field as it stands: for a listed offset this is
  the length in native order, and for an offset away from every listed entry it is the two
  bytes as stored in the file, not swapped. Every length the structure pass stores, for the
  name and the superclass of a structure, the name and the type of a field and the name of
  a constant, is the 16-bit word standing before the string, in \<open>m1\<close> and in the final
  buffer, loaded natively and zero-extended, whenever the string lies after the records;
  the structure pass changes no byte after the records. So the length stored for a name
  that is a listed entry is the length listed. The last three conjuncts say the same of
  each decoding step on its own, for any memory: the lengths it stores are loaded natively
  from the memory it leaves.
\<close>

theorem string_lengths_swapped_once:
  assumes "main e file = Inr r"
  shows "(\<exists>m1. read_strings (out_swapsNeeded r) e (string_start r) (blobLength_of e file)
                (take (blobLength_of e file) file) (string_start r) 1 = Inr (out_strings r, m1)
           \<and> read_structs (out_swapsNeeded r) e (string_start r)
                (structureCount (out_blobHdrV1 r)) m1 sizeof_BlobHeaderV1 1
                = Inr (out_decoded r, struct_end r, out_blobBuffer r)
           \<and> (\<forall>x\<in>set (out_strings r).
                 stringLength x = load_u16 e m1 (string_start r + stringOffset x)
               \<and> load_u16 e m1 (string_start r + stringOffset x)
                   = load_u16 (if out_swapsNeeded r then opposite e else e)
                       (take (blobLength_of e file) file) (string_start r + stringOffset x)
               \<and> (out_swapsNeeded r \<longrightarrow>
                     reversed (take (blobLength_of e file) file) m1
                       (string_start r + stringOffset x) 2))
           \<and> (\<forall>k. (\<forall>x\<in>set (out_strings r). k \<noteq> string_start r + stringOffset x
                      \<and> k \<noteq> string_start r + stringOffset x + 1)
                 \<longrightarrow> m1 ! k = take (blobLength_of e file) file ! k)
           \<and> (\<forall>offset. unat offset \<in> stringOffset ` set (out_strings r) \<longrightarrow>
                 BlobString_length e m1 (BLOBSTRING_AT (string_start r) offset)
                   = Inr (load_u16 (if out_swapsNeeded r then opposite e else e)
                            (take (blobLength_of e file) file) (string_start r + unat offset)))
           \<and> (\<forall>offset. string_start r + unat offset + 2 \<le> blobLength_of e file
                 \<and> (\<forall>x\<in>set (out_strings r). unat offset + 2 \<le> stringOffset x
                        \<or> stringOffset x + 2 \<le> unat offset)
                 \<longrightarrow> BlobString_length e m1 (BLOBSTRING_AT (string_start r) offset)
                   = Inr (load_u16 e (take (blobLength_of e file) file)
                            (string_start r + unat offset)))
           \<and> list_all (struct_lengths_read e m1 (struct_end r)) (out_decoded r)
           \<and> (\<forall>k. struct_end r \<le> k \<longrightarrow> out_blobBuffer r ! k = m1 ! k))
       \<and> chained 0 (out_strings r)
       \<and> blobLength_of e file \<le> string_start r + walk_end 0 (out_strings r)
       \<and> (out_strings r = [] \<longleftrightarrow> blobLength_of e file \<le> string_start r)
       \<and> (\<forall>x\<in>set (out_strings r). string_start r + stringOffset x + 2 \<le> blobLength_of e file)
       \<and> (\<forall>x\<in>set (out_strings r). struct_end r \<le> string_start r + stringOffset x \<longrightarrow>
             load_u16 e (out_blobBuffer r) (string_start r + stringOffset x) = stringLength x
           \<and> stringLength x = load_u16 (if out_swapsNeeded r then opposite e else e)
                 (take (blobLength_of e file) file) (string_start r + stringOffset x))
       \<and> list_all (struct_lengths_read e (out_blobBuffer r) (struct_end r)) (out_decoded r)
       \<and> (\<forall>s\<in>set (out_decoded r). \<forall>x\<in>set (out_strings r).
             struct_end r \<le> string_start r + stringOffset x
             \<and> name s = string_start r + stringOffset x + 2
             \<longrightarrow> nameLength s = ucast (stringLength x))
       \<and> (\<forall>sw sds m p f m'. decode_field sw e sds m p = Inr (f, m')
             \<longrightarrow> field_lengths_read e m' 0 f)
       \<and> (\<forall>sw sds m p c m'. decode_constant sw e sds m p = Inr (c, m')
             \<longrightarrow> constant_lengths_read e m' 0 c)
       \<and> (\<forall>sds m p s. decode_struct_head e sds m p = Inr s
             \<longrightarrow> struct_lengths_read e m 0 s)"
proof -
  define buf where "buf = take (blobLength_of e file) file"
  define disk where "disk = (if out_swapsNeeded r then opposite e else e)"
  from assms obtain m1 where
    len: "blobLength_of e file \<le> length file" and
    s: "read_strings (out_swapsNeeded r) e (string_start r) (blobLength_of e file)
       buf (string_start r) 1 = Inr (out_strings r, m1)" and
    t: "read_structs (out_swapsNeeded r) e (string_start r) (structureCount (out_blobHdrV1 r)) m1
       sizeof_BlobHeaderV1 1 = Inr (out_decoded r, struct_end r, out_blobBuffer r)"
    unfolding buf_def by (rule main_passes)
  have lbuf: "length buf = blobLength_of e file"
    using len by (simp add: buf_def)
  note ent = read_strings_entries [OF s le_refl, unfolded lbuf]
  note lens = read_strings_lengths [OF s le_refl, unfolded lbuf, folded disk_def]
  have tail: "out_blobBuffer r ! k = m1 ! k" if "struct_end r \<le> k" for k
    using read_structs_upper [OF t] that by simp
  have rev: "reversed buf m1 (string_start r + stringOffset x) 2"
    if "x \<in> set (out_strings r)" "out_swapsNeeded r" for x
  proof -
    from s that(2) have "read_strings True e (string_start r) (blobLength_of e file)
       buf (string_start r) 1 = Inr (out_strings r, m1)"
      by simp
    from read_strings_reversed [OF this le_refl] that(1) show ?thesis
      by blast
  qed
  have sl1: "list_all (struct_lengths_read e m1 (struct_end r)) (out_decoded r)"
    by (rule read_structs_lengths [OF t])
  have sl2: "list_all (struct_lengths_read e (out_blobBuffer r) (struct_end r)) (out_decoded r)"
    unfolding list_all_iff
  proof
    fix x assume "x \<in> set (out_decoded r)"
    with sl1 have "struct_lengths_read e m1 (struct_end r) x"
      by (simp add: list_all_iff)
    then show "struct_lengths_read e (out_blobBuffer r) (struct_end r) x"
      by (rule struct_lengths_read_transfer) (simp_all add: tail)
  qed
  have a: "\<exists>m1. read_strings (out_swapsNeeded r) e (string_start r) (blobLength_of e file)
                buf (string_start r) 1 = Inr (out_strings r, m1)
           \<and> read_structs (out_swapsNeeded r) e (string_start r)
                (structureCount (out_blobHdrV1 r)) m1 sizeof_BlobHeaderV1 1
                = Inr (out_decoded r, struct_end r, out_blobBuffer r)
           \<and> (\<forall>x\<in>set (out_strings r).
                 stringLength x = load_u16 e m1 (string_start r + stringOffset x)
               \<and> load_u16 e m1 (string_start r + stringOffset x)
                   = load_u16 disk buf (string_start r + stringOffset x)
               \<and> (out_swapsNeeded r \<longrightarrow>
                     reversed buf m1 (string_start r + stringOffset x) 2))
           \<and> (\<forall>k. (\<forall>x\<in>set (out_strings r). k \<noteq> string_start r + stringOffset x
                      \<and> k \<noteq> string_start r + stringOffset x + 1)
                 \<longrightarrow> m1 ! k = buf ! k)
           \<and> (\<forall>offset. unat offset \<in> stringOffset ` set (out_strings r) \<longrightarrow>
                 BlobString_length e m1 (BLOBSTRING_AT (string_start r) offset)
                   = Inr (load_u16 disk buf (string_start r + unat offset)))
           \<and> (\<forall>offset. string_start r + unat offset + 2 \<le> blobLength_of e file
                 \<and> (\<forall>x\<in>set (out_strings r). unat offset + 2 \<le> stringOffset x
                        \<or> stringOffset x + 2 \<le> unat offset)
                 \<longrightarrow> BlobString_length e m1 (BLOBSTRING_AT (string_start r) offset)
                   = Inr (load_u16 e buf (string_start r + unat offset)))
           \<and> list_all (struct_lengths_read e m1 (struct_end r)) (out_decoded r)
           \<and> (\<forall>k. struct_end r \<le> k \<longrightarrow> out_blobBuffer r ! k = m1 ! k)"
  proof (intro exI [of _ m1] conjI)
    show "\<forall>x\<in>set (out_strings r).
                 stringLength x = load_u16 e m1 (string_start r + stringOffset x)
               \<and> load_u16 e m1 (string_start r + stringOffset x)
                   = load_u16 disk buf (string_start r + stringOffset x)
               \<and> (out_swapsNeeded r \<longrightarrow>
                     reversed buf m1 (string_start r + stringOffset x) 2)"
      using lens rev by blast
    show "\<forall>k. (\<forall>x\<in>set (out_strings r). k \<noteq> string_start r + stringOffset x
                      \<and> k \<noteq> string_start r + stringOffset x + 1)
                 \<longrightarrow> m1 ! k = buf ! k"
      using lens by blast
    show "\<forall>offset. unat offset \<in> stringOffset ` set (out_strings r) \<longrightarrow>
                 BlobString_length e m1 (BLOBSTRING_AT (string_start r) offset)
                   = Inr (load_u16 disk buf (string_start r + unat offset))"
      using lens by blast
    show "\<forall>offset. string_start r + unat offset + 2 \<le> blobLength_of e file
                 \<and> (\<forall>x\<in>set (out_strings r). unat offset + 2 \<le> stringOffset x
                        \<or> stringOffset x + 2 \<le> unat offset)
                 \<longrightarrow> BlobString_length e m1 (BLOBSTRING_AT (string_start r) offset)
                   = Inr (load_u16 e buf (string_start r + unat offset))"
      using lens by blast
    show "\<forall>k. struct_end r \<le> k \<longrightarrow> out_blobBuffer r ! k = m1 ! k"
      using tail by blast
  qed (rule s t sl1)+
  have b1: "chained 0 (out_strings r)"
    and b2: "blobLength_of e file \<le> string_start r + walk_end 0 (out_strings r)"
    and b3: "out_strings r = [] \<longleftrightarrow> blobLength_of e file \<le> string_start r"
    and b4: "\<forall>x\<in>set (out_strings r). string_start r + stringOffset x + 2 \<le> blobLength_of e file"
    using ent by simp_all
  have final: "load_u16 e (out_blobBuffer r) (string_start r + stringOffset x) = stringLength x
           \<and> stringLength x = load_u16 disk buf (string_start r + stringOffset x)"
    if x: "x \<in> set (out_strings r)" and o: "struct_end r \<le> string_start r + stringOffset x" for x
  proof -
    have "load_u16 e (out_blobBuffer r) (string_start r + stringOffset x)
        = load_u16 e m1 (string_start r + stringOffset x)"
      using o by (intro load_u16_cong tail) simp_all
    with lens x show ?thesis
      by simp
  qed
  have b5: "\<forall>x\<in>set (out_strings r). struct_end r \<le> string_start r + stringOffset x \<longrightarrow>
             load_u16 e (out_blobBuffer r) (string_start r + stringOffset x) = stringLength x
           \<and> stringLength x = load_u16 disk buf (string_start r + stringOffset x)"
    using final by blast
  have named: "nameLength s = ucast (stringLength x)"
    if "s \<in> set (out_decoded r)" "x \<in> set (out_strings r)"
      "struct_end r \<le> string_start r + stringOffset x"
      "name s = string_start r + stringOffset x + 2" for s x
  proof -
    from sl1 that(1) have "length_read e m1 (struct_end r) (name s) (nameLength s)"
      by (simp add: list_all_iff struct_lengths_read_def)
    with that(3,4) have "nameLength s = ucast (load_u16 e m1 (string_start r + stringOffset x))"
      by (simp add: length_read_def)
    with lens that(2) show ?thesis
      by simp
  qed
  have b7: "\<forall>s\<in>set (out_decoded r). \<forall>x\<in>set (out_strings r).
             struct_end r \<le> string_start r + stringOffset x
             \<and> name s = string_start r + stringOffset x + 2
             \<longrightarrow> nameLength s = ucast (stringLength x)"
    using named by blast
  have c1: "\<forall>sw sds m p f m'. decode_field sw e sds m p = Inr (f, m')
             \<longrightarrow> field_lengths_read e m' 0 f"
    using decode_field_lengths by blast
  have c2: "\<forall>sw sds m p c m'. decode_constant sw e sds m p = Inr (c, m')
             \<longrightarrow> constant_lengths_read e m' 0 c"
    using decode_constant_lengths by blast
  have c3: "\<forall>sds m p s. decode_struct_head e sds m p = Inr s
             \<longrightarrow> struct_lengths_read e m 0 s"
    using decode_struct_head_lengths by blast
  from a b1 b2 b3 b4 b5 sl2 b7 c1 c2 c3 show ?thesis
    unfolding buf_def disk_def by (intro conjI)
qed

lemma example_blob_swapped_lengths:
  "case main BigEndian example_blob of
     Inl err \<Rightarrow> False
   | Inr r \<Rightarrow> out_swapsNeeded r \<and> blobLength_of BigEndian example_blob = 112
       \<and> length example_blob = 112 \<and> string_start r = 96 \<and> struct_end r = 96
       \<and> out_strings r = [\<lparr> stringNum = 1, stringOffset = 0, stringLength = 1 \<rparr>,
                           \<lparr> stringNum = 2, stringOffset = 4, stringLength = 2 \<rparr>,
                           \<lparr> stringNum = 3, stringOffset = 8, stringLength = 1 \<rparr>,
                           \<lparr> stringNum = 4, stringOffset = 12, stringLength = 2 \<rparr>]
       \<and> out_decoded r = [example_first, example_second]"
  by code_simp

theorem string_lengths_swapped_once_witness:
  "case main BigEndian example_blob of
     Inl err \<Rightarrow> False
   | Inr r \<Rightarrow> out_swapsNeeded r
       \<and> out_strings r = [\<lparr> stringNum = 1, stringOffset = 0, stringLength = 1 \<rparr>,
                           \<lparr> stringNum = 2, stringOffset = 4, stringLength = 2 \<rparr>,
                           \<lparr> stringNum = 3, stringOffset = 8, stringLength = 1 \<rparr>,
                           \<lparr> stringNum = 4, stringOffset = 12, stringLength = 2 \<rparr>]
       \<and> out_decoded r = [example_first, example_second]
       \<and> chained 0 (out_strings r)
       \<and> 112 \<le> string_start r + walk_end 0 (out_strings r)
       \<and> load_u16 BigEndian (out_blobBuffer r) 100 = 2
       \<and> load_u16 LittleEndian example_blob 100 = 2
       \<and> load_u16 BigEndian example_blob 100 = 0x200
       \<and> reversed example_blob (out_blobBuffer r) 100 2
       \<and> name example_second = 102
       \<and> nameLength example_second = ucast (load_u16 BigEndian (out_blobBuffer r) 100)"
proof (cases "main BigEndian example_blob")
  case (Inl err)
  with example_blob_swapped_lengths show ?thesis
    by simp
next
  case (Inr r)
  define x where "x = \<lparr> stringNum = 2, stringOffset = 4, stringLength = 2 \<rparr>"
  from Inr example_blob_swapped_lengths have
    sw: "out_swapsNeeded r" and bl: "blobLength_of BigEndian example_blob = 112" and
    len: "length example_blob = 112" and ss: "string_start r = 96" and se: "struct_end r = 96" and
    strs: "out_strings r = [\<lparr> stringNum = 1, stringOffset = 0, stringLength = 1 \<rparr>,
                           \<lparr> stringNum = 2, stringOffset = 4, stringLength = 2 \<rparr>,
                           \<lparr> stringNum = 3, stringOffset = 8, stringLength = 1 \<rparr>,
                           \<lparr> stringNum = 4, stringOffset = 12, stringLength = 2 \<rparr>]" and
    dec: "out_decoded r = [example_first, example_second]"
    by simp_all
  have buf: "take (blobLength_of BigEndian example_blob) example_blob = example_blob"
    by (simp add: bl len)
  have x: "x \<in> set (out_strings r)" "stringOffset x = 4" "stringLength x = 2"
    by (simp_all add: strs x_def)
  have s: "example_second \<in> set (out_decoded r)" "name example_second = 102"
    by (simp_all add: dec example_second_def)
  have l: "load_u16 BigEndian example_blob 100 = 0x200"
    by code_simp
  note t = string_lengths_swapped_once [OF Inr, unfolded buf]
  from t have c: "chained 0 (out_strings r)"
    and w: "blobLength_of BigEndian example_blob \<le> string_start r + walk_end 0 (out_strings r)"
    by blast+
  from t have "\<forall>x\<in>set (out_strings r). struct_end r \<le> string_start r + stringOffset x \<longrightarrow>
             load_u16 BigEndian (out_blobBuffer r) (string_start r + stringOffset x) = stringLength x
           \<and> stringLength x = load_u16 (if out_swapsNeeded r then opposite BigEndian else BigEndian)
                 example_blob (string_start r + stringOffset x)"
    by blast
  with x sw ss se have f: "load_u16 BigEndian (out_blobBuffer r) 100 = 2"
    "load_u16 LittleEndian example_blob 100 = 2"
    by fastforce+
  from t [THEN conjunct1] obtain m1 where
    r1: "\<forall>x\<in>set (out_strings r). stringLength x = load_u16 BigEndian m1 (string_start r + stringOffset x)
               \<and> load_u16 BigEndian m1 (string_start r + stringOffset x)
                   = load_u16 (if out_swapsNeeded r then opposite BigEndian else BigEndian)
                       example_blob (string_start r + stringOffset x)
               \<and> (out_swapsNeeded r \<longrightarrow>
                     reversed example_blob m1 (string_start r + stringOffset x) 2)" and
    r2: "\<forall>k. struct_end r \<le> k \<longrightarrow> out_blobBuffer r ! k = m1 ! k" and
    r3: "read_structs (out_swapsNeeded r) BigEndian (string_start r)
                (structureCount (out_blobHdrV1 r)) m1 sizeof_BlobHeaderV1 1
                = Inr (out_decoded r, struct_end r, out_blobBuffer r)"
    by (elim exE conjE) (rule that)
  from r1 x sw ss have "reversed example_blob m1 100 2"
    by fastforce
  then have rv: "reversed example_blob (out_blobBuffer r) 100 2"
  proof (rule reversed_after)
    show "out_blobBuffer r ! k = m1 ! k" if "100 \<le> k" for k
      using r2 se that by simp
    show "length (out_blobBuffer r) = length m1"
      using read_structs_frame [OF r3] by simp
  qed
  from t have "\<forall>s\<in>set (out_decoded r). \<forall>x\<in>set (out_strings r).
             struct_end r \<le> string_start r + stringOffset x
             \<and> name s = string_start r + stringOffset x + 2
             \<longrightarrow> nameLength s = ucast (stringLength x)"
    by blast
  with s x ss se have "nameLength example_second = ucast (stringLength x)"
    by fastforce
  with x f have n: "nameLength example_second = ucast (load_u16 BigEndian (out_blobBuffer r) 100)"
    by simp
  from Inr sw strs dec c w bl f l rv s n show ?thesis
    by simp
qed

section \<open>The order of the report\<close>

text \<open>
  The decoded name of a structure is the slice of the buffer that its pointer and length
  denote. The order the specification asks for compares these slices byte by byte.
\<close>

definition decoded_name :: "memory \<Rightarrow> Structure \<Rightarrow> byte list" where
  "decoded_name m s = take (unat (nameLength s)) (drop (name s) m)"

fun bytewise_less :: "byte list \<Rightarrow> byte list \<Rightarrow> bool" where
  "bytewise_less [] [] = False"
| "bytewise_less [] (y # ys) = True"
| "bytewise_less (x # xs) [] = False"
| "bytewise_less (x # xs) (y # ys) = (x < y \<or> x = y \<and> bytewise_less xs ys)"

text \<open>
  A little-endian blob with three structures named \<open>X1\<close>, \<open>YYY...Y\<close> (50 letters) and
  \<open>X10\<close>, in this order in the structure data and in the string table.
\<close>

definition prefix_blob :: "byte list" where
  "prefix_blob =
     [0x01, 0x00, 0x00, 0x00, 0x01, 0x08, 0x01, 0x00, 0x3C, 0x00, 0x00, 0x00,
      0x3E, 0x00, 0x00, 0x00, 0x03, 0x00, 0x00, 0x00, 0x00, 0x00, 0x00, 0x00,
      0xFF, 0xFF, 0xFF, 0xFF, 0x08, 0x00, 0x00, 0x00, 0x00, 0x00, 0x00, 0x00,
      0x00, 0x00, 0x00, 0x00, 0x04, 0x00, 0x00, 0x00, 0xFF, 0xFF, 0xFF, 0xFF,
      0x08, 0x00, 0x00, 0x00, 0x00, 0x00, 0x00, 0x00, 0x00, 0x00, 0x00, 0x00,
      0x38, 0x00, 0x00, 0x00, 0xFF, 0xFF, 0xFF, 0xFF, 0x08, 0x00, 0x00, 0x00,
      0x00, 0x00, 0x00, 0x00, 0x00, 0x00, 0x00, 0x00, 0x02, 0x00, 0x58, 0x31,
      0x32, 0x00, 0x59, 0x59, 0x59, 0x59, 0x59, 0x59, 0x59, 0x59, 0x59, 0x59,
      0x59, 0x59, 0x59, 0x59, 0x59, 0x59, 0x59, 0x59, 0x59, 0x59, 0x59, 0x59,
      0x59, 0x59, 0x59, 0x59, 0x59, 0x59, 0x59, 0x59, 0x59, 0x59, 0x59, 0x59,
      0x59, 0x59, 0x59, 0x59, 0x59, 0x59, 0x59, 0x59, 0x59, 0x59, 0x59, 0x59,
      0x59, 0x59, 0x59, 0x59, 0x03, 0x00, 0x58, 0x31, 0x30, 0x00]"

text \<open>The structures \<open>Zeta\<close>, \<open>Alpha\<close>, \<open>Mu\<close> of the specification's example.\<close>

definition zeta_blob :: "byte list" where
  "zeta_blob =
     [0x01, 0x00, 0x00, 0x00, 0x01, 0x08, 0x01, 0x00, 0x3C, 0x00, 0x00, 0x00,
      0x12, 0x00, 0x00, 0x00, 0x03, 0x00, 0x00, 0x00, 0x00, 0x00, 0x00, 0x00,
      0xFF, 0xFF, 0xFF, 0xFF, 0x08, 0x00, 0x00, 0x00, 0x00, 0x00, 0x00, 0x00,
      0x00, 0x00, 0x00, 0x00, 0x06, 0x00, 0x00, 0x00, 0xFF, 0xFF, 0xFF, 0xFF,
      0x08, 0x00, 0x00, 0x00, 0x00, 0x00, 0x00, 0x00, 0x00, 0x00, 0x00, 0x00,
      0x0E, 0x00, 0x00, 0x00, 0xFF, 0xFF, 0xFF, 0xFF, 0x08, 0x00, 0x00, 0x00,
      0x00, 0x00, 0x00, 0x00, 0x00, 0x00, 0x00, 0x00, 0x04, 0x00, 0x5A, 0x65,
      0x74, 0x61, 0x05, 0x00, 0x41, 0x6C, 0x70, 0x68, 0x61, 0x00, 0x02, 0x00,
      0x4D, 0x75]"

text \<open>
  C6. On a little-endian host the report lists \<open>X10\<close> before \<open>X1\<close>, although \<open>X1\<close> is
  the smaller name byte by byte: \<^verbatim>\<open>strcmp\<close> does not stop at the end of the name \<open>X1\<close> but
  goes on into the length of the next string, 50, whose low byte is the character \<open>2\<close>.
\<close>

theorem sort_reads_past_name_end:
  "case main LittleEndian prefix_blob of
     Inl err \<Rightarrow> False
   | Inr r \<Rightarrow>
       map (decoded_name (out_blobBuffer r)) (out_decoded r)
         = [[0x58, 0x31], replicate 50 0x59, [0x58, 0x31, 0x30]]
       \<and> map (decoded_name (out_blobBuffer r)) (out_structs r)
         = [[0x58, 0x31, 0x30], [0x58, 0x31], replicate 50 0x59]
       \<and> bytewise_less [0x58, 0x31] [0x58, 0x31, 0x30]
       \<and> \<not> sorted_wrt bytewise_less (map (decoded_name (out_blobBuffer r)) (out_structs r))
       \<and> compareStructs (out_blobBuffer r) (out_decoded r ! 0) (out_decoded r ! 2) = Inr False
       \<and> compareStructs (out_blobBuffer r) (out_decoded r ! 2) (out_decoded r ! 0) = Inr True"
  by code_simp

lemma zeta_alpha_mu_sorted:
  "case main LittleEndian zeta_blob of
     Inl err \<Rightarrow> False
   | Inr r \<Rightarrow>
       map (decoded_name (out_blobBuffer r)) (out_decoded r)
         = [[0x5A, 0x65, 0x74, 0x61], [0x41, 0x6C, 0x70, 0x68, 0x61], [0x4D, 0x75]]
       \<and> map (decoded_name (out_blobBuffer r)) (out_structs r)
         = [[0x41, 0x6C, 0x70, 0x68, 0x61], [0x4D, 0x75], [0x5A, 0x65, 0x74, 0x61]]
       \<and> sorted_wrt bytewise_less (map (decoded_name (out_blobBuffer r)) (out_structs r))"
  by code_simp
end
